theory Spec2Isabelle
  imports Complex_Main "HOL-Library.Word" "HOL-Library.Log_Nat" "HOL-Library.Sublist"
    "HOL-Library.Multiset"
begin

section \<open>JavaScript strings\<close>

text \<open>
  A JavaScript string is a sequence of 16-bit code units. The text of a measurement file
  (\<^verbatim>\<open>await response.text()\<close>) is such a string.
\<close>

type_synonym jschar = "16 word"
type_synonym jsstring = "jschar list"

text \<open>ASCII literals, for writing concrete inputs.\<close>

definition ascii :: "string \<Rightarrow> jsstring" where
  "ascii s = map (\<lambda>c. of_nat (of_char c)) s"

text \<open>
  The code units that \<^verbatim>\<open>String.prototype.trim\<close>, the regular expression class
  \<^verbatim>\<open>\s\<close> and \<^verbatim>\<open>parseFloat\<close> treat as white space (WhiteSpace and LineTerminator of
  ECMAScript): TAB, LF, VT, FF, CR, SP, NBSP, U+1680, U+2000..U+200A, U+2028, U+2029,
  U+202F, U+205F, U+3000 and U+FEFF.
\<close>

definition isWhiteSpace :: "jschar \<Rightarrow> bool" where
  "isWhiteSpace c \<longleftrightarrow>
     (0x09 \<le> c \<and> c \<le> 0x0D) \<or> c = 0x20 \<or> c = 0xA0 \<or> c = 0x1680 \<or>
     (0x2000 \<le> c \<and> c \<le> 0x200A) \<or> c = 0x2028 \<or> c = 0x2029 \<or> c = 0x202F \<or>
     c = 0x205F \<or> c = 0x3000 \<or> c = 0xFEFF"

text \<open>\<^verbatim>\<open>s.trim()\<close>\<close>

definition trim :: "jsstring \<Rightarrow> jsstring" where
  "trim s = rev (dropWhile isWhiteSpace (rev (dropWhile isWhiteSpace s)))"

text \<open>\<^verbatim>\<open>s.startsWith('#')\<close>\<close>

definition startsWithHash :: "jsstring \<Rightarrow> bool" where
  "startsWithHash s = (case s of [] \<Rightarrow> False | c # _ \<Rightarrow> c = 0x23)"

text \<open>
  \<^verbatim>\<open>s.split('\n')\<close>: the pieces between the line feeds; the empty string gives one
  empty piece.
\<close>

fun splitLines :: "jsstring \<Rightarrow> jsstring list" where
  "splitLines [] = [[]]"
| "splitLines (c # cs) =
     (if c = 0x0A then [] # splitLines cs
      else (case splitLines cs of
              [] \<Rightarrow> [[c]]
            | l # ls \<Rightarrow> (c # l) # ls))"

text \<open>
  \<^verbatim>\<open>s.split(/\s+/)\<close>: the pieces between the maximal runs of white space. A run at the
  start or the end of the string leaves an empty piece there, and the empty string gives
  one empty piece.
\<close>

function splitWhiteSpace :: "jsstring \<Rightarrow> jsstring list" where
  "splitWhiteSpace s =
     (let piece = takeWhile (\<lambda>c. \<not> isWhiteSpace c) s;
          rest = dropWhile (\<lambda>c. \<not> isWhiteSpace c) s
      in if rest = [] then [piece]
         else piece # splitWhiteSpace (dropWhile isWhiteSpace rest))"
  by pat_completeness auto
termination
proof (relation "measure length")
  show "wf (measure length)" by simp
next
  fix s :: jsstring and piece rest
  assume r: "rest = dropWhile (\<lambda>c. \<not> isWhiteSpace c) s" and ne: "rest \<noteq> []"
  have "length (dropWhile isWhiteSpace rest) < length rest"
  proof (cases rest)
    case Nil
    with ne show ?thesis by simp
  next
    case (Cons c cs)
    have "\<not> \<not> isWhiteSpace (hd rest)"
      using ne unfolding r by (rule hd_dropWhile)
    then have "isWhiteSpace c"
      using Cons by simp
    then have "length (dropWhile isWhiteSpace rest) \<le> length cs"
      using Cons by (simp add: length_dropWhile_le)
    then show ?thesis using Cons by simp
  qed
  moreover have "length rest \<le> length s"
    using r by (simp add: length_dropWhile_le)
  ultimately show "(dropWhile isWhiteSpace rest, s) \<in> measure length"
    by simp
qed

declare splitWhiteSpace.simps [simp del]

section \<open>JavaScript numbers\<close>

text \<open>
  A Number is an IEEE 754 binary64 value: NaN, an infinity, or a finite value with a sign
  and a magnitude (so that \<open>-0\<close> and \<open>+0\<close> are different values). The magnitude of a
  finite value is kept as the rational number it denotes; \<open>Infinity True\<close> is
  \<open>-Infinity\<close>, and \<open>Finite True m\<close> is \<open>-m\<close>.
\<close>

datatype jsnum = NaN | Infinity bool | Finite bool rat

definition pow2 :: "int \<Rightarrow> rat" where
  "pow2 k = (if 0 \<le> k then of_int (2 ^ nat k) else 1 / of_int (2 ^ nat (- k)))"

text \<open>\<open>ilog2 a\<close> is the binary exponent of \<open>a > 0\<close>: \<open>2 ^ ilog2 a \<le> a < 2 ^ (ilog2 a + 1)\<close>.\<close>

definition ilog2 :: "rat \<Rightarrow> int" where
  "ilog2 a =
     (let p = fst (quotient_of a); q = snd (quotient_of a); k = bitlen p - bitlen q
      in if pow2 k \<le> a then k else k - 1)"

definition roundHalfEven :: "rat \<Rightarrow> int" where
  "roundHalfEven x =
     (let f = \<lfloor>x\<rfloor>; d = x - of_int f
      in if d < 1 / 2 then f
         else if 1 / 2 < d then f + 1
         else if even f then f else f + 1)"

text \<open>
  Rounding of a positive real to the nearest binary64 magnitude, ties to even: 53
  significant bits, least exponent \<open>-1022\<close> (subnormals below it). The result
  overflows (\<open>None\<close>) when the rounded value reaches \<open>2 ^ 1024\<close>: when the exponent is
  above 1023, or is 1023 and the significand rounds up to \<open>2 ^ 53\<close>.
\<close>

definition roundMagnitude :: "rat \<Rightarrow> rat option" where
  "roundMagnitude a =
     (let e = max (ilog2 a) (- 1022);
          u = pow2 (e - 52);
          n = roundHalfEven (a / u)
      in if 1023 < e \<or> (e = 1023 \<and> n = 2 ^ 53) then None else Some (of_int n * u))"

text \<open>The Number value for a real number \<open>r\<close>; the sign of a zero is given apart.\<close>

definition toNumber :: "bool \<Rightarrow> rat \<Rightarrow> jsnum" where
  "toNumber zeroSign r =
     (if r = 0 then Finite zeroSign 0
      else (case roundMagnitude \<bar>r\<bar> of
              None \<Rightarrow> Infinity (r < 0)
            | Some m \<Rightarrow> Finite (r < 0) m))"

text \<open>The Number with the value of a decimal literal of the source, such as \<^verbatim>\<open>0.2\<close>.\<close>

definition num :: "rat \<Rightarrow> jsnum" where
  "num r = toNumber False r"

definition valueOf :: "bool \<Rightarrow> rat \<Rightarrow> rat" where
  "valueOf s m = (if s then - m else m)"

definition isNaN :: "jsnum \<Rightarrow> bool" where
  "isNaN x = (x = NaN)"

text \<open>\<^verbatim>\<open>a < b\<close>, false when an operand is NaN.\<close>

fun jsLess :: "jsnum \<Rightarrow> jsnum \<Rightarrow> bool" where
  "jsLess NaN _ = False"
| "jsLess _ NaN = False"
| "jsLess (Infinity s) (Infinity t) = (s \<and> \<not> t)"
| "jsLess (Infinity s) (Finite t n) = s"
| "jsLess (Finite s m) (Infinity t) = (\<not> t)"
| "jsLess (Finite s m) (Finite t n) = (valueOf s m < valueOf t n)"

text \<open>\<^verbatim>\<open>a > b\<close>, \<^verbatim>\<open>a <= b\<close>, \<^verbatim>\<open>a >= b\<close> and \<^verbatim>\<open>a === b\<close>, each false when an operand is NaN.\<close>

definition jsGreater :: "jsnum \<Rightarrow> jsnum \<Rightarrow> bool" where
  "jsGreater a b = jsLess b a"

definition jsLessEq :: "jsnum \<Rightarrow> jsnum \<Rightarrow> bool" where
  "jsLessEq a b = (\<not> isNaN a \<and> \<not> isNaN b \<and> \<not> jsLess b a)"

definition jsGreaterEq :: "jsnum \<Rightarrow> jsnum \<Rightarrow> bool" where
  "jsGreaterEq a b = (\<not> isNaN a \<and> \<not> isNaN b \<and> \<not> jsLess a b)"

definition jsStrictEq :: "jsnum \<Rightarrow> jsnum \<Rightarrow> bool" where
  "jsStrictEq a b = (jsLessEq a b \<and> jsLessEq b a)"

text \<open>\<^verbatim>\<open>a + b\<close>\<close>

fun jsAdd :: "jsnum \<Rightarrow> jsnum \<Rightarrow> jsnum" where
  "jsAdd NaN _ = NaN"
| "jsAdd _ NaN = NaN"
| "jsAdd (Infinity s) (Infinity t) = (if s = t then Infinity s else NaN)"
| "jsAdd (Infinity s) (Finite t n) = Infinity s"
| "jsAdd (Finite s m) (Infinity t) = Infinity t"
| "jsAdd (Finite s m) (Finite t n) = toNumber (s \<and> t) (valueOf s m + valueOf t n)"

text \<open>\<^verbatim>\<open>-a\<close> and \<^verbatim>\<open>a - b\<close>\<close>

fun jsNeg :: "jsnum \<Rightarrow> jsnum" where
  "jsNeg NaN = NaN"
| "jsNeg (Infinity s) = Infinity (\<not> s)"
| "jsNeg (Finite s m) = Finite (\<not> s) m"

definition jsSub :: "jsnum \<Rightarrow> jsnum \<Rightarrow> jsnum" where
  "jsSub a b = jsAdd a (jsNeg b)"

text \<open>\<^verbatim>\<open>a / b\<close>\<close>

fun jsDiv :: "jsnum \<Rightarrow> jsnum \<Rightarrow> jsnum" where
  "jsDiv NaN _ = NaN"
| "jsDiv _ NaN = NaN"
| "jsDiv (Infinity s) (Infinity t) = NaN"
| "jsDiv (Infinity s) (Finite t n) = Infinity (s \<noteq> t)"
| "jsDiv (Finite s m) (Infinity t) = Finite (s \<noteq> t) 0"
| "jsDiv (Finite s m) (Finite t n) =
     (if n = 0 then (if m = 0 then NaN else Infinity (s \<noteq> t))
      else toNumber (s \<noteq> t) (valueOf s m / valueOf t n))"

text \<open>\<^verbatim>\<open>Math.floor(a)\<close>\<close>

fun jsFloor :: "jsnum \<Rightarrow> jsnum" where
  "jsFloor NaN = NaN"
| "jsFloor (Infinity s) = Infinity s"
| "jsFloor (Finite s m) = toNumber s (of_int \<lfloor>valueOf s m\<rfloor>)"

text \<open>\<^verbatim>\<open>a * b\<close>\<close>

fun jsMul :: "jsnum \<Rightarrow> jsnum \<Rightarrow> jsnum" where
  "jsMul NaN _ = NaN"
| "jsMul _ NaN = NaN"
| "jsMul (Infinity s) (Infinity t) = Infinity (s \<noteq> t)"
| "jsMul (Infinity s) (Finite t n) = (if n = 0 then NaN else Infinity (s \<noteq> t))"
| "jsMul (Finite s m) (Infinity t) = (if m = 0 then NaN else Infinity (s \<noteq> t))"
| "jsMul (Finite s m) (Finite t n) = toNumber (s \<noteq> t) (valueOf s m * valueOf t n)"

text \<open>\<^verbatim>\<open>Math.round(a)\<close>: the integer nearest to \<open>a\<close>, a half rounding up.\<close>

fun jsRound :: "jsnum \<Rightarrow> jsnum" where
  "jsRound NaN = NaN"
| "jsRound (Infinity s) = Infinity s"
| "jsRound (Finite s m) = toNumber s (of_int \<lfloor>valueOf s m + 1 / 2\<rfloor>)"

text \<open>
  A value of the model is a Number when its magnitude is one that binary64 has: zero, or
  a value that rounding leaves as it is.
\<close>

definition isDouble :: "jsnum \<Rightarrow> bool" where
  "isDouble x =
     (case x of
        Finite s m \<Rightarrow> m = 0 \<or> (0 < m \<and> roundMagnitude m = Some m)
      | _ \<Rightarrow> True)"

subsection \<open>\<^verbatim>\<open>parseFloat\<close>\<close>

definition isDigit :: "jschar \<Rightarrow> bool" where
  "isDigit c \<longleftrightarrow> 0x30 \<le> c \<and> c \<le> 0x39"

definition digitsValue :: "jsstring \<Rightarrow> nat" where
  "digitsValue ds = foldl (\<lambda>v c. 10 * v + (unat c - 48)) 0 ds"

definition pow10 :: "int \<Rightarrow> rat" where
  "pow10 k = (if 0 \<le> k then of_int (10 ^ nat k) else 1 / of_int (10 ^ nat (- k)))"

text \<open>
  The exponent of an ExponentPart at the start of \<open>s\<close>: \<^verbatim>\<open>e\<close> or \<^verbatim>\<open>E\<close>, an optional
  sign, digits. Where there is none (also when no digit follows) the exponent is 0.
\<close>

definition exponentPart :: "jsstring \<Rightarrow> int" where
  "exponentPart s =
     (case s of
        [] \<Rightarrow> 0
      | c # r \<Rightarrow>
          if c = 0x65 \<or> c = 0x45 then
            (case r of
               [] \<Rightarrow> 0
             | d # r' \<Rightarrow>
                 if d = 0x2B then int (digitsValue (takeWhile isDigit r'))
                 else if d = 0x2D then - int (digitsValue (takeWhile isDigit r'))
                 else int (digitsValue (takeWhile isDigit r)))
          else 0)"

datatype mathValue = MVInfinity | MVReal rat

text \<open>
  The mathematical value of the longest prefix of \<open>s\<close> that is a
  StrUnsignedDecimalLiteral: \<^verbatim>\<open>Infinity\<close>, digits with an optional fraction and
  exponent, or a fraction that starts with the point. \<open>None\<close> when no prefix is one.
\<close>

definition strUnsignedDecimalLiteral :: "jsstring \<Rightarrow> mathValue option" where
  "strUnsignedDecimalLiteral s =
     (if take 8 s = ascii ''Infinity'' then Some MVInfinity
      else
        (let ip = takeWhile isDigit s; r = dropWhile isDigit s
         in case r of
              [] \<Rightarrow> if ip = [] then None else Some (MVReal (of_nat (digitsValue ip)))
            | c # r' \<Rightarrow>
                if c = 0x2E then
                  (let fp = takeWhile isDigit r'; r'' = dropWhile isDigit r'
                   in if ip = [] \<and> fp = [] then None
                      else Some (MVReal
                        ((of_nat (digitsValue ip) + of_nat (digitsValue fp) / of_nat (10 ^ length fp))
                          * pow10 (exponentPart r''))))
                else if ip = [] then None
                else Some (MVReal (of_nat (digitsValue ip) * pow10 (exponentPart r)))))"

text \<open>
  \<^verbatim>\<open>parseFloat(s)\<close>: leading white space is skipped, then an optional sign and the
  longest numeric prefix are read, and the value is rounded to a Number. NaN when there is
  no numeric prefix.
\<close>

definition parseFloat :: "jsstring \<Rightarrow> jsnum" where
  "parseFloat s =
     (let t = dropWhile isWhiteSpace s;
          neg = (case t of [] \<Rightarrow> False | c # _ \<Rightarrow> c = 0x2D);
          signed = (case t of [] \<Rightarrow> False | c # _ \<Rightarrow> c = 0x2B \<or> c = 0x2D);
          u = (if signed then tl t else t)
      in case strUnsignedDecimalLiteral u of
           None \<Rightarrow> NaN
         | Some MVInfinity \<Rightarrow> Infinity neg
         | Some (MVReal v) \<Rightarrow> toNumber neg (if neg then - v else v))"

section \<open>The data service: \<^verbatim>\<open>calculateMedian\<close>\<close>

text \<open>
  \<^verbatim>\<open>[...numbers].sort((a, b) => a - b)\<close>. The comparison function of the source is
  \<open>compareFn\<close>; \<^verbatim>\<open>Array.prototype.sort\<close> reads a NaN result as \<open>+0\<close>
  (\<open>sortCompare\<close>). The sort is stable: it is modelled as the insertion sort that moves
  an element behind those it compares greater than. For an array that holds NaN the
  comparison function is not consistent and ECMAScript leaves the order to the
  implementation: there the order of the model is one permutation among those allowed and
  not that of a given engine, and what is proved about the order of \<open>jsSort\<close> is proved
  for arrays without NaN only.
\<close>

definition compareFn :: "jsnum \<Rightarrow> jsnum \<Rightarrow> jsnum" where
  "compareFn a b = jsSub a b"

definition sortCompare :: "jsnum \<Rightarrow> jsnum \<Rightarrow> jsnum" where
  "sortCompare x y = (let v = compareFn x y in if isNaN v then num 0 else v)"

fun insertSorted :: "jsnum \<Rightarrow> jsnum list \<Rightarrow> jsnum list" where
  "insertSorted x [] = [x]"
| "insertSorted x (y # ys) =
     (if jsGreater (sortCompare x y) (num 0) then y # insertSorted x ys else x # y # ys)"

definition jsSort :: "jsnum list \<Rightarrow> jsnum list" where
  "jsSort xs = foldr insertSorted xs []"

text \<open>
  \<^verbatim>\<open>calculateMedian(numbers)\<close> for an array of Numbers; \<open>None\<close> is \<^verbatim>\<open>null\<close>.
\<close>

definition calculateMedian :: "jsnum list \<Rightarrow> jsnum option" where
  "calculateMedian numbers =
     (if length numbers = 0 then None
      else
        (let sorted = jsSort numbers;
             middleIndex = length sorted div 2
         in if length sorted mod 2 = 0
            then Some (jsDiv (jsAdd (sorted ! (middleIndex - 1)) (sorted ! middleIndex)) (num 2))
            else Some (sorted ! middleIndex)))"

text \<open>
  The same function on a store of arrays, where the effect on the caller's array shows:
  \<open>numbers\<close> is \<^verbatim>\<open>null\<close> (\<open>None\<close>) or the address of an array; the spread
  \<^verbatim>\<open>[...numbers]\<close> allocates a new array at \<open>nextRef\<close>, and \<^verbatim>\<open>sort\<close> sorts that
  array in place.
\<close>

record store =
  arrays :: "nat \<Rightarrow> jsnum list"
  nextRef :: nat

definition spread :: "store \<Rightarrow> nat \<Rightarrow> nat \<times> store" where
  "spread \<sigma> r = (nextRef \<sigma>, \<sigma>\<lparr>arrays := (arrays \<sigma>)(nextRef \<sigma> := arrays \<sigma> r), nextRef := nextRef \<sigma> + 1\<rparr>)"

definition sortInPlace :: "store \<Rightarrow> nat \<Rightarrow> store" where
  "sortInPlace \<sigma> r = \<sigma>\<lparr>arrays := (arrays \<sigma>)(r := jsSort (arrays \<sigma> r))\<rparr>"

definition calculateMedianStore :: "store \<Rightarrow> nat option \<Rightarrow> jsnum option \<times> store" where
  "calculateMedianStore \<sigma> numbers =
     (case numbers of
        None \<Rightarrow> (None, \<sigma>)
      | Some r \<Rightarrow>
          if length (arrays \<sigma> r) = 0 then (None, \<sigma>)
          else
            (let (sorted, \<sigma>1) = spread \<sigma> r;
                 \<sigma>2 = sortInPlace \<sigma>1 sorted;
                 arr = arrays \<sigma>2 sorted;
                 middleIndex = length arr div 2
             in if length arr mod 2 = 0
                then (Some (jsDiv (jsAdd (arr ! (middleIndex - 1)) (arr ! middleIndex)) (num 2)), \<sigma>2)
                else (Some (arr ! middleIndex), \<sigma>2)))"

section \<open>The data service: parsing a measurement file\<close>

text \<open>An entry of \<^verbatim>\<open>polarData\<close>: the object \<^verbatim>\<open>{ time, mag, alt, azi }\<close>.\<close>

record polarPoint =
  time :: jsstring
  mag :: jsnum
  alt :: jsnum
  azi :: jsnum

text \<open>The variables of the loop over the lines.\<close>

record loopState =
  dataStarted :: bool
  sqmValuesForMedian :: "jsnum list"
  allSqmValuesAcc :: "jsnum list"
  polarDataAcc :: "polarPoint list"

definition initialState :: loopState where
  "initialState = \<lparr>dataStarted = False, sqmValuesForMedian = [], allSqmValuesAcc = [], polarDataAcc = []\<rparr>"

text \<open>
  The body of the loop from \<^verbatim>\<open>if (line.trim().length === 0) continue;\<close> on. The reads
  \<^verbatim>\<open>columns[2]\<close>, \<^verbatim>\<open>columns[5]\<close>, \<^verbatim>\<open>columns[7]\<close> and \<^verbatim>\<open>columns[8]\<close> are in range,
  under \<^verbatim>\<open>columns.length >= 9\<close>. A string is truthy when it is not empty.
\<close>

definition processColumns :: "loopState \<Rightarrow> jsstring \<Rightarrow> loopState" where
  "processColumns st line =
     (if length (trim line) = 0 then st
      else
        (let columns = splitWhiteSpace (trim line)
         in if length columns \<ge> 9 then
              (let t = columns ! 2;
                   m = parseFloat (columns ! 5);
                   a = parseFloat (columns ! 7);
                   z = parseFloat (columns ! 8)
               in if \<not> isNaN m then
                    (let st1 = st\<lparr>allSqmValuesAcc := allSqmValuesAcc st @ [m]\<rparr>;
                         st2 = (if t \<noteq> [] \<and> \<not> isNaN a \<and> jsGreaterEq a (num 0) \<and> jsLessEq a (num 90)
                                   \<and> \<not> isNaN z \<and> jsGreaterEq z (num 0) \<and> jsLessEq z (num 360)
                                then st1\<lparr>polarDataAcc := polarDataAcc st1 @ [\<lparr>time = t, mag = m, alt = a, azi = z\<rparr>]\<rparr>
                                else st1)
                     in if \<not> isNaN a \<and> jsGreater a (num 45)
                        then st2\<lparr>sqmValuesForMedian := sqmValuesForMedian st2 @ [m]\<rparr>
                        else st2)
                  else st)
            else st))"

text \<open>One turn of \<^verbatim>\<open>for (const line of lines)\<close>.\<close>

definition processLine :: "loopState \<Rightarrow> jsstring \<Rightarrow> loopState" where
  "processLine st line =
     (if \<not> dataStarted st then
        (if \<not> startsWithHash (trim line) \<and> length (trim line) > 0
         then processColumns (st\<lparr>dataStarted := True\<rparr>) line
         else st)
      else processColumns st line)"

definition runLines :: "jsstring list \<Rightarrow> loopState" where
  "runLines ls = foldl processLine initialState ls"

text \<open>The object \<^verbatim>\<open>processedData\<close>; \<open>medianSqm = None\<close> is \<^verbatim>\<open>null\<close>.\<close>

record processedData =
  medianSqm :: "jsnum option"
  allSqmValues :: "jsnum list"
  polarData :: "polarPoint list"

text \<open>
  What follows the loop: \<^verbatim>\<open>medianSqm\<close> and the construction of
  \<^verbatim>\<open>processedData\<close>.
\<close>

definition parseLines :: "jsstring list \<Rightarrow> processedData" where
  "parseLines ls =
     (let st = runLines ls;
          median = (if length (sqmValuesForMedian st) > 0
                    then calculateMedian (sqmValuesForMedian st) else None)
      in \<lparr>medianSqm = median, allSqmValues = allSqmValuesAcc st, polarData = polarDataAcc st\<rparr>)"

text \<open>
  The parser: from \<^verbatim>\<open>const lines = textData.split('\n')\<close> to
  \<^verbatim>\<open>processedData\<close>.
\<close>

definition parseSqm :: "jsstring \<Rightarrow> processedData" where
  "parseSqm textData = parseLines (splitLines textData)"

text \<open>
  The same code as a transition relation, with one rule for each path through the body of
  the loop: \<open>polarStep\<close> and \<open>medianStep\<close> are the two \<^verbatim>\<open>if\<close> statements on a
  sample, \<open>columnsStep\<close> the body from \<^verbatim>\<open>if (line.trim().length === 0) continue;\<close>
  on, \<open>lineStep\<close> one turn of the loop, \<open>loopRun\<close> the loop, and \<open>parses\<close> the code
  from \<^verbatim>\<open>textData.split('\n')\<close> to \<^verbatim>\<open>processedData\<close>.
\<close>

inductive polarStep :: "loopState \<Rightarrow> polarPoint \<Rightarrow> loopState \<Rightarrow> bool" where
  polarPush:
    "time p \<noteq> [] \<and> \<not> isNaN (alt p) \<and> jsGreaterEq (alt p) (num 0) \<and> jsLessEq (alt p) (num 90)
       \<and> \<not> isNaN (azi p) \<and> jsGreaterEq (azi p) (num 0) \<and> jsLessEq (azi p) (num 360)
     \<Longrightarrow> polarStep st p (st\<lparr>polarDataAcc := polarDataAcc st @ [p]\<rparr>)"
| polarSkip:
    "\<not> (time p \<noteq> [] \<and> \<not> isNaN (alt p) \<and> jsGreaterEq (alt p) (num 0) \<and> jsLessEq (alt p) (num 90)
       \<and> \<not> isNaN (azi p) \<and> jsGreaterEq (azi p) (num 0) \<and> jsLessEq (azi p) (num 360))
     \<Longrightarrow> polarStep st p st"

inductive medianStep :: "loopState \<Rightarrow> polarPoint \<Rightarrow> loopState \<Rightarrow> bool" where
  medianPush:
    "\<not> isNaN (alt p) \<and> jsGreater (alt p) (num 45)
     \<Longrightarrow> medianStep st p (st\<lparr>sqmValuesForMedian := sqmValuesForMedian st @ [mag p]\<rparr>)"
| medianSkip:
    "\<not> (\<not> isNaN (alt p) \<and> jsGreater (alt p) (num 45)) \<Longrightarrow> medianStep st p st"

inductive columnsStep :: "loopState \<Rightarrow> jsstring \<Rightarrow> loopState \<Rightarrow> bool" where
  blankLine:
    "length (trim line) = 0 \<Longrightarrow> columnsStep st line st"
| shortLine:
    "length (trim line) \<noteq> 0 \<Longrightarrow> \<not> 9 \<le> length (splitWhiteSpace (trim line))
     \<Longrightarrow> columnsStep st line st"
| notANumber:
    "length (trim line) \<noteq> 0 \<Longrightarrow> 9 \<le> length (splitWhiteSpace (trim line))
     \<Longrightarrow> isNaN (parseFloat (splitWhiteSpace (trim line) ! 5))
     \<Longrightarrow> columnsStep st line st"
| sampleLine:
    "length (trim line) \<noteq> 0 \<Longrightarrow> columns = splitWhiteSpace (trim line)
     \<Longrightarrow> 9 \<le> length columns \<Longrightarrow> \<not> isNaN (parseFloat (columns ! 5))
     \<Longrightarrow> p = \<lparr>time = columns ! 2, mag = parseFloat (columns ! 5),
              alt = parseFloat (columns ! 7), azi = parseFloat (columns ! 8)\<rparr>
     \<Longrightarrow> polarStep (st\<lparr>allSqmValuesAcc := allSqmValuesAcc st @ [mag p]\<rparr>) p st2
     \<Longrightarrow> medianStep st2 p st3
     \<Longrightarrow> columnsStep st line st3"

inductive lineStep :: "loopState \<Rightarrow> jsstring \<Rightarrow> loopState \<Rightarrow> bool" where
  headerLine:
    "\<not> dataStarted st \<Longrightarrow> \<not> (\<not> startsWithHash (trim line) \<and> length (trim line) > 0)
     \<Longrightarrow> lineStep st line st"
| firstDataLine:
    "\<not> dataStarted st \<Longrightarrow> \<not> startsWithHash (trim line) \<and> length (trim line) > 0
     \<Longrightarrow> columnsStep (st\<lparr>dataStarted := True\<rparr>) line st1
     \<Longrightarrow> lineStep st line st1"
| dataLine:
    "dataStarted st \<Longrightarrow> columnsStep st line st1 \<Longrightarrow> lineStep st line st1"

inductive loopRun :: "loopState \<Rightarrow> jsstring list \<Rightarrow> loopState \<Rightarrow> bool" where
  loopDone:
    "loopRun st [] st"
| loopTurn:
    "lineStep st line st1 \<Longrightarrow> loopRun st1 ls st2 \<Longrightarrow> loopRun st (line # ls) st2"

inductive parses :: "jsstring \<Rightarrow> processedData \<Rightarrow> bool" where
  withoutMedian:
    "loopRun initialState (splitLines textData) st \<Longrightarrow> \<not> length (sqmValuesForMedian st) > 0
     \<Longrightarrow> parses textData
           \<lparr>medianSqm = None, allSqmValues = allSqmValuesAcc st, polarData = polarDataAcc st\<rparr>"
| withMedian:
    "loopRun initialState (splitLines textData) st \<Longrightarrow> length (sqmValuesForMedian st) > 0
     \<Longrightarrow> parses textData
           \<lparr>medianSqm = calculateMedian (sqmValuesForMedian st),
            allSqmValues = allSqmValuesAcc st, polarData = polarDataAcc st\<rparr>"

text \<open>
  \<^verbatim>\<open>fetchAndParseSqm(sqmFileUrl)\<close> with the module's cache \<^verbatim>\<open>sqmCache\<close> passed in
  and out, and the transport as a function from the URL to what \<^verbatim>\<open>fetch\<close> and
  \<^verbatim>\<open>response.text()\<close> give: a rejection, or a response with its \<^verbatim>\<open>ok\<close> flag and
  its text. A rejection or a response that is not ok is thrown and caught, and the empty
  data are returned without an entry in the cache.

  The cache is the object \<^verbatim>\<open>{}\<close>: the map holds its own properties, and the read
  \<^verbatim>\<open>sqmCache[sqmFileUrl]\<close> of a key that is not among them gives the property of
  \<^verbatim>\<open>Object.prototype\<close> of that name when there is one. Each of these is a function or
  an object, so the test \<^verbatim>\<open>if (sqmCache[sqmFileUrl])\<close> holds and that value is returned,
  without a fetch (\<open>Inherited\<close>).
\<close>

datatype fetchOutcome = Rejected | Response bool jsstring

datatype returned = Data processedData | Inherited jsstring

definition objectPrototypeKeys :: "jsstring list" where
  "objectPrototypeKeys =
     [ascii ''constructor'', ascii ''hasOwnProperty'', ascii ''isPrototypeOf'',
      ascii ''propertyIsEnumerable'', ascii ''toLocaleString'', ascii ''toString'',
      ascii ''valueOf'', ascii ''__proto__'', ascii ''__defineGetter__'',
      ascii ''__defineSetter__'', ascii ''__lookupGetter__'', ascii ''__lookupSetter__'']"

definition cacheRead :: "(jsstring \<rightharpoonup> processedData) \<Rightarrow> jsstring \<Rightarrow> returned option" where
  "cacheRead sqmCache key =
     (case sqmCache key of
        Some cached \<Rightarrow> Some (Data cached)
      | None \<Rightarrow> if key \<in> set objectPrototypeKeys then Some (Inherited key) else None)"

definition emptyData :: processedData where
  "emptyData = \<lparr>medianSqm = None, allSqmValues = [], polarData = []\<rparr>"

definition fetchAndParseSqm ::
  "(jsstring \<Rightarrow> fetchOutcome) \<Rightarrow> (jsstring \<rightharpoonup> processedData) \<Rightarrow> jsstring
     \<Rightarrow> returned \<times> (jsstring \<rightharpoonup> processedData)" where
  "fetchAndParseSqm fetch sqmCache sqmFileUrl =
     (case cacheRead sqmCache sqmFileUrl of
        Some found \<Rightarrow> (found, sqmCache)
      | None \<Rightarrow>
          (case fetch sqmFileUrl of
             Rejected \<Rightarrow> (Data emptyData, sqmCache)
           | Response ok textData \<Rightarrow>
               if \<not> ok then (Data emptyData, sqmCache)
               else (let processed = parseSqm textData
                     in (Data processed, sqmCache(sqmFileUrl \<mapsto> processed)))))"

section \<open>The visualization service: the bins of \<^verbatim>\<open>createHistogram\<close>\<close>

definition binWidth :: jsnum where
  "binWidth = num (2 / 10)"

definition minRange :: jsnum where
  "minRange = num 16"

definition maxRange :: jsnum where
  "maxRange = num 22"

definition numCoreBins :: jsnum where
  "numCoreBins = jsRound (jsDiv (jsSub maxRange minRange) binWidth)"

text \<open>
  The labels: \<^verbatim>\<open>'<16'\<close>, one label for each \<open>i = 0, 1, ...\<close> with \<open>i < numCoreBins\<close>,
  and \<^verbatim>\<open>'>22'\<close>. The text of an inner label,
  \<^verbatim>\<open>`${start.toFixed(1)}-${end.toFixed(1)}`\<close>, is kept as the pair of \<open>start\<close> and
  \<open>end\<close>. \<open>coreBinCount\<close> is the number of turns of the loop
  \<^verbatim>\<open>for (let i = 0; i < numCoreBins; i++)\<close> for the finite \<open>numCoreBins\<close> of the source
  (it is 30, see \<open>coreBinCount_value\<close>).
\<close>

datatype label = Text string | Range jsnum jsnum

definition coreBinCount :: nat where
  "coreBinCount = (case numCoreBins of Finite False m \<Rightarrow> nat \<lceil>m\<rceil> | _ \<Rightarrow> 0)"

definition coreLabel :: "nat \<Rightarrow> label" where
  "coreLabel i =
     (let start = jsAdd minRange (jsMul (num (of_nat i)) binWidth);
          end' = jsAdd start binWidth
      in Range start end')"

definition labels :: "label list" where
  "labels = [Text ''<16''] @ map coreLabel [0..<coreBinCount] @ [Text ''>22'']"

text \<open>
  \<^verbatim>\<open>bins[k]++\<close> for a Number \<open>k\<close>: an element of the array is counted up when \<open>k\<close> is
  an integer that is an index of the array (as it is wherever the source does this).
\<close>

definition increment :: "nat list \<Rightarrow> jsnum \<Rightarrow> nat list" where
  "increment bins k =
     (case k of
        Finite s m \<Rightarrow>
          if of_int \<lfloor>m\<rfloor> = m \<and> (\<not> s \<or> m = 0) \<and> nat \<lfloor>m\<rfloor> < length bins
          then bins[nat \<lfloor>m\<rfloor> := bins ! nat \<lfloor>m\<rfloor> + 1]
          else bins
      | _ \<Rightarrow> bins)"

text \<open>The function passed to \<^verbatim>\<open>sqmValues.forEach\<close>, on the array \<^verbatim>\<open>bins\<close>.\<close>

definition countValue :: "nat list \<Rightarrow> jsnum \<Rightarrow> nat list" where
  "countValue bins val =
     (if isNaN val then bins
      else if jsLess val minRange then increment bins (num 0)
      else if jsGreaterEq val maxRange then increment bins (num (of_nat (length labels - 1)))
      else
        (let binIndex = jsAdd (jsFloor (jsDiv (jsSub val minRange) binWidth)) (num 1)
         in if jsGreater binIndex (num 0) \<and> jsLess binIndex (num (of_nat (length labels - 1)))
            then increment bins binIndex
            else if jsStrictEq val minRange then increment bins (num 1)
            else bins))"

text \<open>
  \<^verbatim>\<open>const bins = Array(labels.length).fill(0); sqmValues.forEach(...)\<close>: the counts
  that the chart shows. The source comes here only with values and a canvas, see
  \<open>createHistogram\<close> below: with an empty array it makes no bins.
\<close>

definition histogramBins :: "jsnum list \<Rightarrow> nat list" where
  "histogramBins sqmValues = foldl countValue (replicate (length labels) 0) sqmValues"

text \<open>
  \<^verbatim>\<open>createHistogram(canvasId, sqmValues)\<close>, as far as the bins go: the result is the
  array \<^verbatim>\<open>bins\<close> that is given to the chart as its data, or \<open>None\<close> where the
  function returns \<^verbatim>\<open>null\<close> before it makes any bins: when \<^verbatim>\<open>sqmValues\<close> is
  \<^verbatim>\<open>null\<close> (\<open>None\<close>) or empty, or when the document has no element \<^verbatim>\<open>canvasId\<close>.
\<close>

definition createHistogram :: "bool \<Rightarrow> jsnum list option \<Rightarrow> nat list option" where
  "createHistogram canvasFound sqmValues =
     (case sqmValues of
        None \<Rightarrow> None
      | Some values \<Rightarrow>
          if length values = 0 then None
          else if \<not> canvasFound then None
          else Some (histogramBins values))"

section \<open>The vocabulary of the specification\<close>

text \<open>
  A line is a comment when its trimmed form starts with \<^verbatim>\<open>#\<close>, and blank when its
  trimmed form is empty. Its fields are the pieces of the trimmed line between runs of
  white space.
\<close>

definition isComment :: "jsstring \<Rightarrow> bool" where
  "isComment l = startsWithHash (trim l)"

definition isBlank :: "jsstring \<Rightarrow> bool" where
  "isBlank l = (trim l = [])"

definition fieldsOf :: "jsstring \<Rightarrow> jsstring list" where
  "fieldsOf l = splitWhiteSpace (trim l)"

text \<open>The sample that a line with nine fields or more holds (fields 2, 5, 7 and 8).\<close>

definition sampleOf :: "jsstring \<Rightarrow> polarPoint" where
  "sampleOf l =
     \<lparr>time = fieldsOf l ! 2, mag = parseFloat (fieldsOf l ! 5),
      alt = parseFloat (fieldsOf l ! 7), azi = parseFloat (fieldsOf l ! 8)\<rparr>"

text \<open>A line gives a sample when it is not blank, has nine fields and its magnitude parses.\<close>

definition isSampleLine :: "jsstring \<Rightarrow> bool" where
  "isSampleLine l = (\<not> isBlank l \<and> 9 \<le> length (fieldsOf l) \<and> \<not> isNaN (parseFloat (fieldsOf l ! 5)))"

text \<open>Data start: the lines from the first one that is neither a comment nor blank.\<close>

definition dataRegion :: "jsstring list \<Rightarrow> jsstring list" where
  "dataRegion ls = dropWhile (\<lambda>l. isComment l \<or> isBlank l) ls"

definition parsedSamples :: "jsstring list \<Rightarrow> polarPoint list" where
  "parsedSamples ls = map sampleOf (filter isSampleLine (dataRegion ls))"

text \<open>The conditions on a sample of the polar plot, and on one that counts for the median.\<close>

definition polarValid :: "polarPoint \<Rightarrow> bool" where
  "polarValid p =
     (time p \<noteq> [] \<and> \<not> isNaN (alt p) \<and> jsGreaterEq (alt p) (num 0) \<and> jsLessEq (alt p) (num 90)
      \<and> \<not> isNaN (azi p) \<and> jsGreaterEq (azi p) (num 0) \<and> jsLessEq (azi p) (num 360))"

definition highAltitude :: "polarPoint \<Rightarrow> bool" where
  "highAltitude p = (\<not> isNaN (alt p) \<and> jsGreater (alt p) (num 45))"

text \<open>A sequence of Numbers is ascending when each element is \<^verbatim>\<open><=\<close> all later ones.\<close>

definition ascending :: "jsnum list \<Rightarrow> bool" where
  "ascending xs = sorted_wrt jsLessEq xs"

text \<open>\<^verbatim>\<open>Number.isFinite\<close>: neither NaN nor an infinity.\<close>

definition isFinite :: "jsnum \<Rightarrow> bool" where
  "isFinite x = (case x of Finite s m \<Rightarrow> True | _ \<Rightarrow> False)"

text \<open>
  The arithmetic mean of two Numbers: the mean \<open>(a + b) / 2\<close> of their values in exact
  arithmetic, as the nearest Number. With an infinite element the mean is that infinity;
  of the two infinities of different sign, and with NaN, it is NaN.
\<close>

fun arithmeticMean :: "jsnum \<Rightarrow> jsnum \<Rightarrow> jsnum" where
  "arithmeticMean NaN _ = NaN"
| "arithmeticMean _ NaN = NaN"
| "arithmeticMean (Infinity s) (Infinity t) = (if s = t then Infinity s else NaN)"
| "arithmeticMean (Infinity s) (Finite t n) = Infinity s"
| "arithmeticMean (Finite s m) (Infinity t) = Infinity t"
| "arithmeticMean (Finite s m) (Finite t n) = toNumber (s \<and> t) ((valueOf s m + valueOf t n) / 2)"

text \<open>
  The middle of a sequence: the middle element when the count is odd, the arithmetic mean
  of the two middle elements when it is even.
\<close>

definition middleValue :: "jsnum list \<Rightarrow> jsnum" where
  "middleValue s =
     (if even (length s)
      then arithmeticMean (s ! (length s div 2 - 1)) (s ! (length s div 2))
      else s ! (length s div 2))"

text \<open>
  The sum of two finite Numbers overflows when binary64 rounds it to an infinity; the
  middle of a sequence overflows when the count is even and the sum of the two middle
  elements does.
\<close>

definition sumOverflows :: "jsnum \<Rightarrow> jsnum \<Rightarrow> bool" where
  "sumOverflows a b = (isFinite a \<and> isFinite b \<and> \<not> isFinite (jsAdd a b))"

definition middleOverflows :: "jsnum list \<Rightarrow> bool" where
  "middleOverflows s =
     (even (length s) \<and> sumOverflows (s ! (length s div 2 - 1)) (s ! (length s div 2)))"

text \<open>
  The bucket of a value: none for NaN, bucket 0 below \<open>minRange\<close>, the last bucket from
  \<open>maxRange\<close> on, and between them the bucket \<open>floor ((v - minRange) / binWidth) + 1\<close>,
  the quotient being the one that binary64 gives.
\<close>

definition bucketOf :: "jsnum \<Rightarrow> nat option" where
  "bucketOf v =
     (if isNaN v then None
      else if jsLess v minRange then Some 0
      else if jsGreaterEq v maxRange then Some (length labels - 1)
      else (case jsDiv (jsSub v minRange) binWidth of
              Finite s q \<Rightarrow> Some (nat \<lfloor>valueOf s q\<rfloor> + 1)
            | _ \<Rightarrow> None))"

text \<open>
  A result is well formed when its values are Numbers, its magnitudes are not NaN, and
  each polar sample has a time, an altitude in \<open>[0, 90]\<close> and an azimuth in \<open>[0, 360]\<close>.
\<close>

definition wellFormed :: "processedData \<Rightarrow> bool" where
  "wellFormed d =
     ((case medianSqm d of None \<Rightarrow> True | Some m \<Rightarrow> isDouble m) \<and>
      list_all (\<lambda>m. isDouble m \<and> \<not> isNaN m) (allSqmValues d) \<and>
      list_all (\<lambda>p. isDouble (mag p) \<and> isDouble (alt p) \<and> isDouble (azi p)
                  \<and> \<not> isNaN (mag p) \<and> polarValid p) (polarData d))"

section \<open>Binary64 rounding\<close>

lemma pow2_powi: "pow2 k = 2 powi k"
  by (simp add: pow2_def power_int_def inverse_eq_divide power_one_over)

lemma pow2_pos [simp]: "0 < pow2 k"
  by (simp add: pow2_powi)

lemma pow2_add: "pow2 (a + b) = pow2 a * pow2 b"
  by (simp add: pow2_powi power_int_add)

lemma pow2_diff: "pow2 (a - b) = pow2 a / pow2 b"
  by (simp add: pow2_powi power_int_diff)

lemma pow2_mono: "a \<le> b \<Longrightarrow> pow2 a \<le> pow2 b"
  by (simp add: pow2_powi power_int_increasing)

lemma pow2_strict_mono: "a < b \<Longrightarrow> pow2 a < pow2 b"
  by (simp add: pow2_powi power_int_strict_increasing)

lemma pow2_less_iff: "pow2 a < pow2 b \<longleftrightarrow> a < b"
  using pow2_strict_mono [of a b] pow2_mono [of b a] by (auto simp: not_less [symmetric])

lemma pow2_nonneg: "0 \<le> k \<Longrightarrow> pow2 k = of_int (2 ^ nat k)"
  by (simp add: pow2_def)

lemma ilog2_bounds:
  assumes "0 < a"
  shows "pow2 (ilog2 a) \<le> a \<and> a < pow2 (ilog2 a + 1)"
proof -
  obtain p q where pq: "quotient_of a = (p, q)" by force
  have q: "0 < q" using quotient_of_denom_pos [OF pq] .
  have a: "a = of_int p / of_int q" using quotient_of_div [OF pq] .
  have p: "0 < p"
    using assms q unfolding a by (simp add: zero_less_divide_iff)
  define k where "k = bitlen p - bitlen q"
  have bp: "2 ^ nat (bitlen p - 1) \<le> p" "p < 2 ^ nat (bitlen p)"
    using bitlen_bounds [OF p] by auto
  have bq: "2 ^ nat (bitlen q - 1) \<le> q" "q < 2 ^ nat (bitlen q)"
    using bitlen_bounds [OF q] by auto
  have lp: "1 \<le> bitlen p" using p by (simp add: bitlen_alt_def)
  have lq: "1 \<le> bitlen q" using q by (simp add: bitlen_alt_def)
  have P1: "pow2 (bitlen p - 1) \<le> of_int p"
    using bp(1) lp by (simp add: pow2_nonneg of_int_le_iff [symmetric] del: of_int_le_iff)
  have P2: "of_int p < pow2 (bitlen p)"
    using bp(2) lp by (simp add: pow2_nonneg)
  have Q1: "pow2 (bitlen q - 1) \<le> of_int q"
    using bq(1) lq by (simp add: pow2_nonneg of_int_le_iff [symmetric] del: of_int_le_iff)
  have Q2: "of_int q < pow2 (bitlen q)"
    using bq(2) lq by (simp add: pow2_nonneg)
  have qpos: "(0::rat) < of_int q" using q by simp
  have upper: "a < pow2 (k + 1)"
  proof -
    have "of_int p < pow2 (bitlen p)" by (rule P2)
    also have "\<dots> = pow2 (k + 1) * pow2 (bitlen q - 1)"
      by (simp add: k_def pow2_add [symmetric])
    also have "\<dots> \<le> pow2 (k + 1) * of_int q"
      using Q1 by (simp add: mult_left_mono less_imp_le)
    finally show ?thesis
      unfolding a using qpos by (simp add: pos_divide_less_eq)
  qed
  have lower: "pow2 (k - 1) < a"
  proof -
    have "pow2 (k - 1) * of_int q < pow2 (k - 1) * pow2 (bitlen q)"
      using Q2 by (simp add: mult_strict_left_mono)
    also have "\<dots> = pow2 (bitlen p - 1)"
      by (simp add: k_def pow2_add [symmetric])
    also have "\<dots> \<le> of_int p" by (rule P1)
    finally show ?thesis
      unfolding a using qpos by (simp add: pos_less_divide_eq)
  qed
  have il: "ilog2 a = (if pow2 k \<le> a then k else k - 1)"
    by (simp add: ilog2_def pq k_def Let_def)
  show ?thesis
  proof (cases "pow2 k \<le> a")
    case True
    then show ?thesis using il upper by simp
  next
    case False
    then show ?thesis using il lower by (simp add: less_imp_le)
  qed
qed

lemma ilog2_unique:
  assumes "0 < a" "pow2 e \<le> a" "a < pow2 (e + 1)"
  shows "ilog2 a = e"
proof -
  have b: "pow2 (ilog2 a) \<le> a" "a < pow2 (ilog2 a + 1)"
    using ilog2_bounds [OF assms(1)] by auto
  have "pow2 e < pow2 (ilog2 a + 1)" using assms(2) b(2) by simp
  then have 1: "e < ilog2 a + 1" by (simp add: pow2_less_iff)
  have "pow2 (ilog2 a) < pow2 (e + 1)" using assms(3) b(1) by simp
  then have 2: "ilog2 a < e + 1" by (simp add: pow2_less_iff)
  from 1 2 show ?thesis by simp
qed

lemma ilog2_mono:
  assumes "0 < a" "a \<le> b"
  shows "ilog2 a \<le> ilog2 b"
proof -
  have "pow2 (ilog2 a) \<le> a" using ilog2_bounds [OF assms(1)] by simp
  also have "a \<le> b" by fact
  also have "b < pow2 (ilog2 b + 1)" using ilog2_bounds [of b] assms by simp
  finally show ?thesis by (simp add: pow2_less_iff)
qed

lemma ilog2_less:
  assumes "0 < a" "a < pow2 k"
  shows "ilog2 a < k"
proof -
  have "pow2 (ilog2 a) \<le> a" using ilog2_bounds [OF assms(1)] by simp
  also have "a < pow2 k" by fact
  finally show ?thesis by (simp add: pow2_less_iff)
qed

lemma roundHalfEven_of_int [simp]: "roundHalfEven (of_int n) = n"
  by (simp add: roundHalfEven_def)

lemma roundHalfEven_le:
  assumes "x \<le> of_int N"
  shows "roundHalfEven x \<le> N"
proof (cases "x = of_int N")
  case True
  then show ?thesis by simp
next
  case False
  with assms have "x < of_int N" by simp
  then have "\<lfloor>x\<rfloor> < N" by (simp add: floor_less_iff)
  then show ?thesis
    by (auto simp add: roundHalfEven_def Let_def)
qed

lemma roundHalfEven_ge:
  assumes "of_int N \<le> x"
  shows "N \<le> roundHalfEven x"
proof -
  have "N \<le> \<lfloor>x\<rfloor>" using assms by (simp add: le_floor_iff)
  then show ?thesis
    by (auto simp add: roundHalfEven_def Let_def)
qed

lemma pow2_int_mult:
  assumes "i \<le> j"
  shows "pow2 j = of_int (2 ^ nat (j - i)) * pow2 i"
proof -
  have "pow2 j = pow2 ((j - i) + i)" by simp
  also have "\<dots> = pow2 (j - i) * pow2 i" by (rule pow2_add)
  also have "pow2 (j - i) = of_int (2 ^ nat (j - i))"
    using assms by (simp add: pow2_nonneg)
  finally show ?thesis .
qed

lemma roundMagnitude_eq:
  "roundMagnitude a =
     (if 1023 < max (ilog2 a) (- 1022)
         \<or> (max (ilog2 a) (- 1022) = 1023
             \<and> roundHalfEven (a / pow2 (max (ilog2 a) (- 1022) - 52)) = 2 ^ 53)
      then None
      else Some (of_int (roundHalfEven (a / pow2 (max (ilog2 a) (- 1022) - 52)))
                 * pow2 (max (ilog2 a) (- 1022) - 52)))"
  by (simp add: roundMagnitude_def Let_def)

lemma roundMagnitude_SomeD:
  assumes "roundMagnitude a = Some m"
  shows "m = of_int (roundHalfEven (a / pow2 (max (ilog2 a) (- 1022) - 52)))
             * pow2 (max (ilog2 a) (- 1022) - 52)"
    and "max (ilog2 a) (- 1022) \<le> 1023"
  using assms unfolding roundMagnitude_eq by (auto split: if_splits)

lemma significand_bound:
  assumes "0 < a"
  shows "a / pow2 (max (ilog2 a) (- 1022) - 52) < of_int (2 ^ 53)"
proof -
  let ?e = "max (ilog2 a) (- 1022)"
  have "a < pow2 (ilog2 a + 1)" using ilog2_bounds [OF assms] by simp
  also have "\<dots> \<le> pow2 (?e + 1)" by (rule pow2_mono) simp
  also have "\<dots> = of_int (2 ^ nat ((?e + 1) - (?e - 52))) * pow2 (?e - 52)"
    by (rule pow2_int_mult) simp
  also have "nat ((?e + 1) - (?e - 52)) = 53" by simp
  finally show ?thesis
    by (simp add: pos_divide_less_eq)
qed

lemma significand_le:
  assumes "0 < a"
  shows "roundHalfEven (a / pow2 (max (ilog2 a) (- 1022) - 52)) \<le> 2 ^ 53"
  using significand_bound [OF assms] by (intro roundHalfEven_le) (simp add: less_imp_le)

lemma significand_nonneg:
  assumes "0 < a"
  shows "0 \<le> roundHalfEven (a / pow2 k)"
  by (rule roundHalfEven_ge) (use assms in \<open>simp add: less_imp_le\<close>)

text \<open>A multiple of a power of two with at most 53 significant bits is a binary64 value.\<close>

lemma scaled_quotient:
  fixes u :: rat
  assumes "0 < u" "y = of_int K * u"
  shows "of_int N * y / u = of_int (N * K)"
  using assms by simp

lemma roundMagnitude_exact:
  assumes pos: "0 < x" and x: "x = of_int N * pow2 j" and j: "- 1074 \<le> j"
    and bits: "x < pow2 (j + 53)" and range: "x < pow2 1024"
  shows "roundMagnitude x = Some x"
proof -
  define e where "e = max (ilog2 x) (- 1022)"
  define u where "u = pow2 (e - 52)"
  define K :: int where "K = 2 ^ nat (j - (e - 52))"
  have upos: "0 < u" by (simp add: u_def)
  have "ilog2 x < j + 53" using pos bits by (rule ilog2_less)
  with j have le: "e - 52 \<le> j" by (simp add: e_def)
  have "pow2 j = of_int K * u"
    unfolding K_def u_def using le by (rule pow2_int_mult)
  then have q: "x / u = of_int (N * K)"
    unfolding x using upos by (intro scaled_quotient)
  have n: "roundHalfEven (x / u) = N * K"
    unfolding q by (rule roundHalfEven_of_int)
  have restore: "of_int (roundHalfEven (x / u)) * u = x"
    unfolding n q [symmetric] using upos by simp
  have "ilog2 x < 1024" using pos range by (rule ilog2_less)
  then have e: "e \<le> 1023" by (simp add: e_def)
  have "\<not> (e = 1023 \<and> roundHalfEven (x / u) = 2 ^ 53)"
  proof
    assume a: "e = 1023 \<and> roundHalfEven (x / u) = 2 ^ 53"
    then have "u = pow2 971" by (simp add: u_def)
    with a restore have "x = of_int (2 ^ 53) * pow2 971"
      by simp
    also have "\<dots> = pow2 1024"
      using pow2_int_mult [of 971 1024] by simp
    finally show False using range by simp
  qed
  then show ?thesis
    using e restore unfolding roundMagnitude_eq e_def [symmetric] u_def [symmetric] by simp
qed

text \<open>Rounding does not pass a binary64 value above.\<close>

lemma roundMagnitude_le:
  assumes pos: "0 < x" and le: "x \<le> c" and c: "roundMagnitude c = Some c"
  shows "\<exists>m. roundMagnitude x = Some m \<and> 0 \<le> m \<and> m \<le> c"
proof -
  define ex where "ex = max (ilog2 x) (- 1022)"
  define ec where "ec = max (ilog2 c) (- 1022)"
  define ux where "ux = pow2 (ex - 52)"
  define uc where "uc = pow2 (ec - 52)"
  define nx where "nx = roundHalfEven (x / ux)"
  define nc where "nc = roundHalfEven (c / uc)"
  define K :: int where "K = 2 ^ nat ((ec - 52) - (ex - 52))"
  have uxpos: "0 < ux" by (simp add: ux_def)
  have cpos: "0 < c" using pos le by simp
  have ee: "ex \<le> ec" using ilog2_mono [OF pos le] by (simp add: ex_def ec_def)
  have rc: "roundMagnitude c =
      (if 1023 < ec \<or> (ec = 1023 \<and> nc = 2 ^ 53) then None else Some (of_int nc * uc))"
    unfolding roundMagnitude_eq ec_def uc_def nc_def ..
  have rx: "roundMagnitude x =
      (if 1023 < ex \<or> (ex = 1023 \<and> nx = 2 ^ 53) then None else Some (of_int nx * ux))"
    unfolding roundMagnitude_eq ex_def ux_def nx_def ..
  have ec: "\<not> 1023 < ec" and nc: "\<not> (ec = 1023 \<and> nc = 2 ^ 53)" and cval: "c = of_int nc * uc"
    using c unfolding rc by (auto split: if_splits)
  have "uc = of_int K * ux"
    unfolding uc_def ux_def K_def using ee by (intro pow2_int_mult) simp
  then have "of_int nc * uc / ux = of_int (nc * K)"
    using uxpos by (intro scaled_quotient)
  then have cq: "c / ux = of_int (nc * K)"
    using cval by simp
  have "x / ux \<le> c / ux"
    using le uxpos by (simp add: divide_right_mono less_imp_le)
  then have nxle: "nx \<le> nc * K"
    unfolding cq nx_def by (rule roundHalfEven_le)
  then have "(of_int nx :: rat) \<le> of_int (nc * K)"
    by (simp only: of_int_le_iff)
  then have "of_int nx * ux \<le> of_int (nc * K) * ux"
    using uxpos by (intro mult_right_mono) (simp_all add: less_imp_le)
  also have "\<dots> = c" using cq uxpos by (simp add: field_simps)
  finally have mle: "of_int nx * ux \<le> c" .
  have "0 \<le> nx"
    unfolding nx_def ux_def by (rule significand_nonneg [OF pos])
  then have m0: "0 \<le> of_int nx * ux"
    using uxpos by (simp add: less_imp_le)
  have "\<not> (ex = 1023 \<and> nx = 2 ^ 53)"
  proof
    assume a: "ex = 1023 \<and> nx = 2 ^ 53"
    with ee ec have e: "ec = 1023" by simp
    then have "K = 1" using a by (simp add: K_def)
    with a nxle have "2 ^ 53 \<le> nc" by simp
    moreover have "nc \<le> 2 ^ 53"
      unfolding nc_def uc_def ec_def using significand_le [OF cpos] .
    ultimately show False using nc e by simp
  qed
  moreover have "\<not> 1023 < ex" using ee ec by simp
  ultimately have "roundMagnitude x = Some (of_int nx * ux)"
    unfolding rx by simp
  then show ?thesis using mle m0 by blast
qed

text \<open>Rounding keeps a value that is not below the least subnormal away from zero.\<close>

lemma roundMagnitude_pos:
  assumes x: "pow2 (- 1074) \<le> x" and m: "roundMagnitude x = Some m"
  shows "0 < m"
proof -
  let ?e = "max (ilog2 x) (- 1022)"
  have pos: "0 < x" using pow2_pos x by (rule less_le_trans)
  have "pow2 (?e - 52) \<le> x"
  proof (cases "ilog2 x \<le> - 1022")
    case True
    then have "?e - 52 = - 1074" by simp
    then show ?thesis using x by simp
  next
    case False
    then have "?e = ilog2 x" by simp
    then have "pow2 (?e - 52) \<le> pow2 (ilog2 x)" by (intro pow2_mono) simp
    also have "\<dots> \<le> x" using ilog2_bounds [OF pos] by simp
    finally show ?thesis .
  qed
  then have "of_int 1 \<le> x / pow2 (?e - 52)"
    by (simp add: pos_le_divide_eq)
  then have "1 \<le> roundHalfEven (x / pow2 (?e - 52))"
    by (rule roundHalfEven_ge)
  then have "0 < of_int (roundHalfEven (x / pow2 (?e - 52))) * pow2 (?e - 52)"
    by (simp add: zero_less_mult_iff)
  then show ?thesis
    using m by (auto simp add: roundMagnitude_eq split: if_splits)
qed

lemma roundMagnitude_nonneg:
  assumes "0 < x" "roundMagnitude x = Some m"
  shows "0 \<le> m"
proof -
  have "0 \<le> of_int (roundHalfEven (x / pow2 k)) * pow2 k" for k
    using significand_nonneg [OF assms(1), of k] by (simp add: less_imp_le)
  then show ?thesis
    using assms(2) by (auto simp add: roundMagnitude_eq split: if_splits)
qed

text \<open>The binary64 values of a binade are multiples of its unit.\<close>

lemma double_grid:
  assumes m: "roundMagnitude m = Some m" and lo: "pow2 e \<le> m" and hi: "m < pow2 (e + 1)"
    and e: "- 1022 \<le> e"
  shows "\<exists>n. m = of_int n * pow2 (e - 52)"
proof -
  have pos: "0 < m" using pow2_pos lo by (rule less_le_trans)
  have "ilog2 m = e" using pos lo hi by (rule ilog2_unique)
  then have "max (ilog2 m) (- 1022) = e" using e by simp
  then have "m = of_int (roundHalfEven (m / pow2 (e - 52))) * pow2 (e - 52)"
    using roundMagnitude_SomeD(1) [OF m] by simp
  then show ?thesis ..
qed

lemma double_multiple:
  assumes pos: "0 < m" and m: "roundMagnitude m = Some m"
  shows "\<exists>k. 0 < k \<and> m = of_int k * pow2 (- 1074)"
proof -
  define e where "e = max (ilog2 m) (- 1022)"
  define n where "n = roundHalfEven (m / pow2 (e - 52))"
  define K :: int where "K = 2 ^ nat ((e - 52) - (- 1074))"
  have mv: "m = of_int n * pow2 (e - 52)"
    unfolding n_def e_def using m by (rule roundMagnitude_SomeD)
  have "pow2 (e - 52) = of_int K * pow2 (- 1074)"
    unfolding K_def by (rule pow2_int_mult) (simp add: e_def)
  with mv have k: "m = of_int (n * K) * pow2 (- 1074)"
    by simp
  have "0 < of_int (n * K) * pow2 (- 1074)"
    using pos k by simp
  then have "(0::rat) < of_int (n * K)"
    using pow2_pos [of "- 1074"] by (simp only: zero_less_mult_iff) auto
  then have "0 < n * K"
    by (simp only: of_int_0_less_iff)
  with k show ?thesis by blast
qed

section \<open>The comparison function and the sort\<close>

lemma num_0: "num 0 = Finite False 0"
  by (simp add: num_def toNumber_def)

lemma valueOf_neg [simp]: "valueOf (\<not> s) m = - valueOf s m"
  by (simp add: valueOf_def)

lemma valueOf_zero [simp]: "valueOf s 0 = 0"
  by (simp add: valueOf_def)

lemma double_value_multiple:
  assumes "isDouble (Finite s m)"
  shows "\<exists>k. valueOf s m = of_int k * pow2 (- 1074)"
proof (cases "m = 0")
  case True
  then have "valueOf s m = of_int 0 * pow2 (- 1074)" by (simp add: valueOf_def)
  then show ?thesis ..
next
  case False
  with assms have "0 < m" "roundMagnitude m = Some m"
    by (auto simp add: isDouble_def)
  then obtain k where k: "m = of_int k * pow2 (- 1074)"
    using double_multiple by blast
  show ?thesis
  proof (cases s)
    case True
    then have "valueOf s m = of_int (- k) * pow2 (- 1074)" using k by (simp add: valueOf_def)
    then show ?thesis ..
  next
    case False
    then have "valueOf s m = of_int k * pow2 (- 1074)" using k by (simp add: valueOf_def)
    then show ?thesis ..
  qed
qed

lemma integer_multiple_abs:
  fixes q :: rat
  assumes "0 < q" "r = of_int k * q" "r \<noteq> 0"
  shows "q \<le> \<bar>r\<bar>"
proof -
  have "k \<noteq> 0" using assms by auto
  then have "1 \<le> \<bar>k\<bar>" by simp
  then have "(1::rat) \<le> of_int \<bar>k\<bar>" by (simp only: of_int_1_le_iff)
  then have "1 * q \<le> of_int \<bar>k\<bar> * q"
    using assms(1) by (intro mult_right_mono) simp_all
  then show ?thesis
    using assms(1,2) by (simp add: abs_mult)
qed

text \<open>The sign of a rounded value that is not below the least subnormal in magnitude.\<close>

lemma toNumber_sign:
  assumes "r \<noteq> 0" "pow2 (- 1074) \<le> \<bar>r\<bar>"
  shows "toNumber z r \<noteq> NaN \<and> jsLess (Finite False 0) (toNumber z r) = (0 < r)"
proof (cases "roundMagnitude \<bar>r\<bar>")
  case None
  then show ?thesis using assms(1) by (auto simp add: toNumber_def)
next
  case (Some m)
  then have "0 < m" using assms(2) roundMagnitude_pos by blast
  then show ?thesis using assms(1) Some by (simp add: toNumber_def valueOf_def)
qed

lemma compare_sign:
  assumes "isDouble a" "isDouble b" "a \<noteq> NaN" "b \<noteq> NaN"
  shows "jsGreater (sortCompare a b) (num 0) = jsLess b a"
proof (cases a)
  case NaN
  with assms show ?thesis by simp
next
  case ia: (Infinity s)
  show ?thesis
    using assms(4) ia
    by (cases b) (auto simp add: sortCompare_def compareFn_def jsSub_def jsGreater_def isNaN_def num_0 valueOf_def)
next
  case fa: (Finite s m)
  show ?thesis
  proof (cases b)
    case NaN
    with assms show ?thesis by simp
  next
    case (Infinity t)
    then show ?thesis
      using fa by (simp add: sortCompare_def compareFn_def jsSub_def jsGreater_def isNaN_def num_0)
  next
    case fb: (Finite t n)
    define d where "d = valueOf s m + valueOf (\<not> t) n"
    have sub: "compareFn a b = toNumber (s \<and> \<not> t) d"
      by (simp add: compareFn_def jsSub_def fa fb d_def)
    obtain ka kb where "valueOf s m = of_int ka * pow2 (- 1074)" "valueOf t n = of_int kb * pow2 (- 1074)"
      using double_value_multiple assms(1,2) fa fb by blast
    then have dk: "d = of_int (ka - kb) * pow2 (- 1074)"
      by (simp add: d_def algebra_simps)
    show ?thesis
    proof (cases "d = 0")
      case True
      then have same: "valueOf s m = valueOf t n"
        by (simp add: d_def)
      have "sortCompare a b = Finite (s \<and> \<not> t) 0"
        using sub True by (simp add: sortCompare_def isNaN_def toNumber_def)
      then show ?thesis
        using same by (simp add: jsGreater_def num_0 fa fb)
    next
      case False
      have "pow2 (- 1074) \<le> \<bar>d\<bar>"
        using pow2_pos dk False by (rule integer_multiple_abs)
      then have "toNumber (s \<and> \<not> t) d \<noteq> NaN"
        and "jsLess (Finite False 0) (toNumber (s \<and> \<not> t) d) = (0 < d)"
        using toNumber_sign [OF False] by auto
      then show ?thesis
        using sub by (simp add: sortCompare_def jsGreater_def isNaN_def num_0 fa fb d_def)
    qed
  qed
qed

lemma jsLessEq_trans:
  "jsLessEq a b \<Longrightarrow> jsLessEq b c \<Longrightarrow> jsLessEq a c"
  by (cases a; cases b; cases c) (auto simp add: jsLessEq_def isNaN_def)

lemma jsLessEq_total:
  "a \<noteq> NaN \<Longrightarrow> b \<noteq> NaN \<Longrightarrow> \<not> jsLess b a \<Longrightarrow> jsLessEq a b"
  by (simp add: jsLessEq_def isNaN_def)

lemma jsLess_imp_LessEq:
  "jsLess a b \<Longrightarrow> jsLessEq a b"
  by (cases a; cases b) (auto simp add: jsLessEq_def isNaN_def)

lemma jsLessEq_not_NaN:
  "jsLessEq a b \<Longrightarrow> a \<noteq> NaN \<and> b \<noteq> NaN"
  by (simp add: jsLessEq_def isNaN_def)

lemma jsLessEq_not_less:
  "jsLessEq a b \<Longrightarrow> \<not> jsLess b a"
  by (simp add: jsLessEq_def)

lemma mset_insertSorted [simp]: "mset (insertSorted x ys) = add_mset x (mset ys)"
  by (induction ys) simp_all

lemma mset_jsSort [simp]: "mset (jsSort xs) = mset xs"
  by (induction xs) (simp_all add: jsSort_def)

lemma set_insertSorted [simp]: "set (insertSorted x ys) = insert x (set ys)"
  by (induction ys) auto

lemma set_jsSort [simp]: "set (jsSort xs) = set xs"
  by (induction xs) (simp_all add: jsSort_def)

lemma length_jsSort [simp]: "length (jsSort xs) = length xs"
  by (metis mset_jsSort size_mset)

lemma ascending_insertSorted:
  assumes "isDouble x" "x \<noteq> NaN" "\<forall>y\<in>set ys. isDouble y \<and> y \<noteq> NaN" "ascending ys"
  shows "ascending (insertSorted x ys)"
  using assms(3,4)
proof (induction ys)
  case Nil
  then show ?case by (simp add: ascending_def)
next
  case (Cons y ys)
  have y: "isDouble y" "y \<noteq> NaN" using Cons.prems(1) by auto
  have cmp: "jsGreater (sortCompare x y) (num 0) = jsLess y x"
    using assms(1) y(1) assms(2) y(2) by (rule compare_sign)
  show ?case
  proof (cases "jsLess y x")
    case True
    have "ascending (insertSorted x ys)"
      using Cons by (simp add: ascending_def)
    moreover have "\<forall>z\<in>set (insertSorted x ys). jsLessEq y z"
      using True Cons.prems(2) by (auto simp add: ascending_def jsLess_imp_LessEq)
    ultimately show ?thesis
      using True cmp by (simp add: ascending_def)
  next
    case False
    then have xy: "jsLessEq x y"
      using assms(2) y(2) by (simp add: jsLessEq_total)
    then have "\<forall>z\<in>set (y # ys). jsLessEq x z"
      using Cons.prems(2) by (auto simp add: ascending_def intro: jsLessEq_trans)
    then show ?thesis
      using False cmp Cons.prems(2) by (simp add: ascending_def)
  qed
qed

lemma ascending_jsSort:
  assumes "\<forall>y\<in>set xs. isDouble y \<and> y \<noteq> NaN"
  shows "ascending (jsSort xs)"
  using assms
proof (induction xs)
  case Nil
  then show ?case by (simp add: jsSort_def ascending_def)
next
  case (Cons x xs)
  have "ascending (insertSorted x (jsSort xs))"
    using Cons by (intro ascending_insertSorted) simp_all
  then show ?case by (simp add: jsSort_def)
qed

lemma jsSort_ascending:
  assumes "\<forall>y\<in>set xs. isDouble y" "ascending xs"
  shows "jsSort xs = xs"
  using assms
proof (induction xs)
  case Nil
  then show ?case by (simp add: jsSort_def)
next
  case (Cons x xs)
  have rest: "jsSort xs = xs"
    using Cons by (simp add: ascending_def)
  show ?case
  proof (cases xs)
    case Nil
    then show ?thesis by (simp add: jsSort_def)
  next
    case (Cons y ys)
    have xy: "jsLessEq x y"
      using Cons.prems(2) Cons by (simp add: ascending_def)
    have "jsGreater (sortCompare x y) (num 0) = jsLess y x"
      using Cons.prems(1) Cons jsLessEq_not_NaN [OF xy] by (intro compare_sign) simp_all
    then have "\<not> jsGreater (sortCompare x y) (num 0)"
      using jsLessEq_not_less [OF xy] by simp
    then have "insertSorted x xs = x # xs"
      using Cons by simp
    then show ?thesis
      using rest by (simp add: jsSort_def)
  qed
qed

section \<open>The values of the program are binary64 values\<close>

text \<open>Rounding gives a binary64 value.\<close>

lemma roundMagnitude_idem:
  assumes pos: "0 < a" and m: "roundMagnitude a = Some m"
  shows "m = 0 \<or> (0 < m \<and> roundMagnitude m = Some m)"
proof -
  define e where "e = max (ilog2 a) (- 1022)"
  define n where "n = roundHalfEven (a / pow2 (e - 52))"
  have mv: "m = of_int n * pow2 (e - 52)"
    unfolding n_def e_def using m by (rule roundMagnitude_SomeD)
  have e: "- 1022 \<le> e" "e \<le> 1023"
    using roundMagnitude_SomeD(2) [OF m] by (simp_all add: e_def)
  have top: "\<not> (e = 1023 \<and> n = 2 ^ 53)"
    using m unfolding roundMagnitude_eq e_def [symmetric] n_def [symmetric]
    by (auto split: if_splits)
  have n0: "0 \<le> n"
    unfolding n_def by (rule significand_nonneg [OF pos])
  have n53: "n \<le> 2 ^ 53"
    unfolding n_def e_def by (rule significand_le [OF pos])
  show ?thesis
  proof (cases "n = 0")
    case True
    then show ?thesis using mv by simp
  next
    case False
    then have npos: "0 < n" using n0 by simp
    then have mpos: "0 < m" using mv by (simp add: zero_less_mult_iff)
    have "roundMagnitude m = Some m"
    proof (cases "n = 2 ^ 53")
      case True
      then have e2: "e + 1 \<le> 1023" using top e by simp
      have "pow2 (e + 1) = of_int (2 ^ nat ((e + 1) - (e - 52))) * pow2 (e - 52)"
        by (rule pow2_int_mult) simp
      moreover have "nat ((e + 1) - (e - 52)) = 53" by simp
      ultimately have m1: "m = of_int 1 * pow2 (e + 1)"
        using mv True by simp
      have "m < pow2 (e + 1 + 53)"
        unfolding m1 by (simp add: pow2_strict_mono)
      moreover have "m < pow2 1024"
        unfolding m1 using e2 by (simp add: pow2_strict_mono)
      ultimately show ?thesis
        using mpos m1 e(1) by (intro roundMagnitude_exact [where N = 1 and j = "e + 1"]) simp_all
    next
      case False
      then have "n < 2 ^ 53" using n53 by simp
      then have "(of_int n :: rat) < of_int (2 ^ 53)" by (simp only: of_int_less_iff)
      then have "of_int n * pow2 (e - 52) < of_int (2 ^ 53) * pow2 (e - 52)"
        by (intro mult_strict_right_mono) simp_all
      also have "of_int (2 ^ 53) * pow2 (e - 52) = pow2 (e - 52 + 53)"
        using pow2_int_mult [of "e - 52" "e - 52 + 53"] by simp
      finally have bits: "m < pow2 (e - 52 + 53)" using mv by simp
      also have "pow2 (e - 52 + 53) \<le> pow2 1024"
        using e(2) by (intro pow2_mono) simp
      finally have "m < pow2 1024" .
      then show ?thesis
        using mpos mv e(1) bits by (intro roundMagnitude_exact [where N = n and j = "e - 52"]) simp_all
    qed
    then show ?thesis using mpos by simp
  qed
qed

lemma isDouble_toNumber [simp]: "isDouble (toNumber z r)"
proof (cases "r = 0")
  case True
  then show ?thesis by (simp add: isDouble_def toNumber_def)
next
  case False
  then have "0 < \<bar>r\<bar>" by simp
  then show ?thesis
    using roundMagnitude_idem [of "\<bar>r\<bar>"] False
    by (auto simp add: toNumber_def isDouble_def split: option.splits)
qed

lemma isDouble_NaN [simp]: "isDouble NaN"
  by (simp add: isDouble_def)

lemma isDouble_Infinity [simp]: "isDouble (Infinity s)"
  by (simp add: isDouble_def)

lemma isDouble_num [simp]: "isDouble (num r)"
  by (simp add: num_def)

lemma isDouble_parseFloat [simp]: "isDouble (parseFloat s)"
  by (simp add: parseFloat_def Let_def split: option.splits mathValue.splits)

lemma isDouble_jsAdd [simp]: "isDouble (jsAdd a b)"
  by (cases a; cases b) simp_all

lemma isDouble_zero [simp]: "isDouble (Finite s 0)"
  by (simp add: isDouble_def)

lemma isDouble_jsDiv [simp]: "isDouble (jsDiv a b)"
  by (cases a; cases b) simp_all

lemma isDouble_calculateMedian:
  assumes "\<forall>x\<in>set xs. isDouble x" "calculateMedian xs = Some m"
  shows "isDouble m"
proof -
  have ne: "xs \<noteq> []" using assms(2) by (auto simp add: calculateMedian_def)
  then have "length xs div 2 < length (jsSort xs)" by simp
  then have "jsSort xs ! (length xs div 2) \<in> set (jsSort xs)"
    by (rule nth_mem)
  then have "isDouble (jsSort xs ! (length xs div 2))"
    using assms(1) by simp
  then show ?thesis
    using assms(2) ne by (auto simp add: calculateMedian_def Let_def split: if_splits)
qed

lemma parsedSamples_doubles:
  "p \<in> set (parsedSamples ls) \<Longrightarrow> isDouble (mag p) \<and> isDouble (alt p) \<and> isDouble (azi p)"
  by (auto simp add: parsedSamples_def sampleOf_def)

section \<open>The mean of two Numbers\<close>

lemma ilog2_pow2 [simp]: "ilog2 (pow2 k) = k"
  by (rule ilog2_unique) (simp_all add: pow2_strict_mono)

lemma pow2_half: "pow2 k / 2 = pow2 (k - 1)"
proof -
  have "pow2 k = of_int (2 ^ nat (k - (k - 1))) * pow2 (k - 1)"
    by (rule pow2_int_mult) simp
  then show ?thesis by simp
qed

text \<open>Halving commutes with rounding above the subnormal range.\<close>

lemma roundMagnitude_half:
  assumes x: "pow2 (- 1021) \<le> x" and m: "roundMagnitude x = Some m"
  shows "roundMagnitude (x / 2) = Some (m / 2)"
proof -
  define e where "e = ilog2 x"
  have pos: "0 < x" using pow2_pos x by (rule less_le_trans)
  have e: "- 1021 \<le> e"
    using ilog2_mono [OF pow2_pos x] by (simp add: e_def)
  have b: "pow2 e \<le> x" "x < pow2 (e + 1)"
    using ilog2_bounds [OF pos] by (simp_all add: e_def)
  have me: "max (ilog2 x) (- 1022) = e" using e by (simp add: e_def)
  have "ilog2 (x / 2) = e - 1"
  proof (rule ilog2_unique)
    show "0 < x / 2" using pos by simp
    show "pow2 (e - 1) \<le> x / 2" using b(1) by (simp add: pow2_half [symmetric])
    show "x / 2 < pow2 (e - 1 + 1)" using b(2) pow2_half [of "e + 1"] by simp
  qed
  then have mh: "max (ilog2 (x / 2)) (- 1022) = e - 1" using e by simp
  define n where "n = roundHalfEven (x / pow2 (e - 52))"
  have mv: "m = of_int n * pow2 (e - 52)" and top: "e \<le> 1023"
    using roundMagnitude_SomeD [OF m] unfolding me n_def by simp_all
  have u: "pow2 (e - 1 - 52) = pow2 (e - 52) / 2"
    using pow2_half [of "e - 52"] by (simp add: algebra_simps)
  have q: "x / 2 / pow2 (e - 1 - 52) = x / pow2 (e - 52)"
    unfolding u by simp
  have "roundMagnitude (x / 2) = Some (of_int n * pow2 (e - 1 - 52))"
    unfolding roundMagnitude_eq mh q n_def [symmetric] using top by simp
  then show ?thesis
    unfolding mv u by simp
qed

lemma roundMagnitude_ge_pow2:
  assumes k: "- 1022 \<le> k" and x: "pow2 k \<le> x" and m: "roundMagnitude x = Some m"
  shows "pow2 k \<le> m"
proof -
  define e where "e = ilog2 x"
  have pos: "0 < x" using pow2_pos x by (rule less_le_trans)
  have e: "k \<le> e"
    using ilog2_mono [OF pow2_pos x] by (simp add: e_def)
  have me: "max (ilog2 x) (- 1022) = e" using e k by (simp add: e_def)
  define n where "n = roundHalfEven (x / pow2 (e - 52))"
  have mv: "m = of_int n * pow2 (e - 52)"
    using roundMagnitude_SomeD(1) [OF m] unfolding me n_def .
  have pe: "pow2 e = of_int (2 ^ nat (e - (e - 52))) * pow2 (e - 52)"
    by (rule pow2_int_mult) simp
  have "pow2 e \<le> x" using ilog2_bounds [OF pos] by (simp add: e_def)
  then have "of_int (2 ^ nat (e - (e - 52))) \<le> x / pow2 (e - 52)"
    unfolding pe by (simp add: pos_le_divide_eq)
  then have "2 ^ nat (e - (e - 52)) \<le> n"
    unfolding n_def by (rule roundHalfEven_ge)
  then have "(of_int (2 ^ nat (e - (e - 52))) :: rat) \<le> of_int n"
    by (simp only: of_int_le_iff)
  then have "of_int (2 ^ nat (e - (e - 52))) * pow2 (e - 52) \<le> of_int n * pow2 (e - 52)"
    by (intro mult_right_mono) (simp_all add: less_imp_le)
  then have "pow2 e \<le> m" using pe mv by simp
  moreover have "pow2 k \<le> pow2 e" using e by (rule pow2_mono)
  ultimately show ?thesis by simp
qed

lemma roundMagnitude_overflow:
  assumes "pow2 1024 \<le> x"
  shows "roundMagnitude x = None"
proof -
  have "ilog2 (pow2 1024) \<le> ilog2 x"
    using pow2_pos assms by (rule ilog2_mono)
  then have "1023 < ilog2 x" by simp
  then show ?thesis
    unfolding roundMagnitude_eq by (simp add: max_def Let_def)
qed

lemma roundMagnitude_normal_ge:
  assumes x: "pow2 (- 1021) \<le> x" and m: "roundMagnitude x = Some m"
  shows "pow2 (- 1021) \<le> m"
  using _ x m by (rule roundMagnitude_ge_pow2) simp

text \<open>A sum of two binary64 values below the normal range is a binary64 value.\<close>

lemma small_multiple_exact:
  assumes pos: "0 < x" and k: "x = of_int k * pow2 (- 1074)" and small: "x < pow2 (- 1021)"
  shows "roundMagnitude x = Some x"
proof (rule roundMagnitude_exact [OF pos k])
  show "- 1074 \<le> (- 1074 :: int)" by simp
  show "x < pow2 (- 1074 + 53)" using small by simp
  have "pow2 (- 1021) \<le> pow2 1024" by (rule pow2_mono) simp
  then show "x < pow2 1024" using small by simp
qed

lemma half_of_rounded_sum:
  assumes k: "x = of_int k * pow2 (- 1074)" and pos: "0 < x" and m: "roundMagnitude x = Some m"
  shows "0 < m \<and> roundMagnitude (m / 2) = roundMagnitude (x / 2)"
proof (cases "x < pow2 (- 1021)")
  case True
  then have "roundMagnitude x = Some x" using pos k by (intro small_multiple_exact)
  then have "m = x" using m by simp
  then show ?thesis using pos by simp
next
  case False
  then have x: "pow2 (- 1021) \<le> x" by simp
  have mge: "pow2 (- 1021) \<le> m" using x m by (rule roundMagnitude_normal_ge)
  have mpos: "0 < m" using pow2_pos mge by (rule less_le_trans)
  have "m = 0 \<or> (0 < m \<and> roundMagnitude m = Some m)"
    using pos m by (rule roundMagnitude_idem)
  then have "roundMagnitude m = Some m" using mpos by simp
  then have "roundMagnitude (m / 2) = Some (m / 2)"
    using mge by (intro roundMagnitude_half)
  moreover have "roundMagnitude (x / 2) = Some (m / 2)"
    using x m by (rule roundMagnitude_half)
  ultimately show ?thesis using mpos by simp
qed

lemma num_2: "num 2 = Finite False 2"
  by code_simp

lemma mean_finite:
  assumes da: "isDouble (Finite s m)" and db: "isDouble (Finite t n)"
    and fin: "isFinite (jsAdd (Finite s m) (Finite t n))"
  shows "jsDiv (jsAdd (Finite s m) (Finite t n)) (num 2) = arithmeticMean (Finite s m) (Finite t n)"
proof -
  define S where "S = valueOf s m + valueOf t n"
  have add: "jsAdd (Finite s m) (Finite t n) = toNumber (s \<and> t) S"
    by (simp add: S_def)
  have mean: "arithmeticMean (Finite s m) (Finite t n) = toNumber (s \<and> t) (S / 2)"
    by (simp add: S_def)
  show ?thesis
  proof (cases "S = 0")
    case True
    then show ?thesis
      unfolding add mean num_2 by (simp add: toNumber_def valueOf_def)
  next
    case False
    obtain ka kb where "valueOf s m = of_int ka * pow2 (- 1074)" "valueOf t n = of_int kb * pow2 (- 1074)"
      using double_value_multiple da db by blast
    then have "S = of_int (ka + kb) * pow2 (- 1074)"
      by (simp add: S_def algebra_simps)
    moreover have "\<bar>pow2 (- 1074)\<bar> = pow2 (- 1074)"
      using pow2_pos [of "- 1074"] by (simp only: abs_of_pos)
    ultimately have k: "\<bar>S\<bar> = of_int \<bar>ka + kb\<bar> * pow2 (- 1074)"
      by (simp only: abs_mult of_int_abs)
    have pos: "0 < \<bar>S\<bar>" using False by simp
    obtain M where M: "roundMagnitude \<bar>S\<bar> = Some M"
      using fin False unfolding add by (cases "roundMagnitude \<bar>S\<bar>") (simp_all add: toNumber_def isFinite_def)
    have h: "0 < M" "roundMagnitude (M / 2) = roundMagnitude (\<bar>S\<bar> / 2)"
      using half_of_rounded_sum [OF k pos M] by simp_all
    have sum: "toNumber (s \<and> t) S = Finite (S < 0) M"
      using False M by (simp add: toNumber_def)
    have "jsDiv (Finite (S < 0) M) (Finite False 2) = toNumber (S < 0) (valueOf (S < 0) M / 2)"
      by (simp add: valueOf_def)
    also have "\<dots> = (case roundMagnitude (M / 2) of
        None \<Rightarrow> Infinity (S < 0) | Some r \<Rightarrow> Finite (S < 0) r)"
      using h(1) by (auto simp add: toNumber_def valueOf_def split: option.splits)
    also have "\<dots> = toNumber (s \<and> t) (S / 2)"
    proof -
      have "(S / 2 < 0) = (S < 0)" by (simp add: divide_less_0_iff)
      then show ?thesis
        using False h(2) by (simp add: toNumber_def abs_divide split: option.splits)
    qed
    finally show ?thesis
      unfolding add mean num_2 sum .
  qed
qed

lemma mean_correct:
  assumes "isDouble a" "isDouble b" "\<not> sumOverflows a b"
  shows "jsDiv (jsAdd a b) (num 2) = arithmeticMean a b"
proof (cases a)
  case NaN
  then show ?thesis by simp
next
  case (Infinity s)
  then show ?thesis by (cases b) (simp_all add: num_2)
next
  case fa: (Finite s m)
  show ?thesis
  proof (cases b)
    case NaN
    then show ?thesis using fa by simp
  next
    case (Infinity t)
    then show ?thesis using fa by (simp add: num_2)
  next
    case fb: (Finite t n)
    then have "isFinite (jsAdd (Finite s m) (Finite t n))"
      using assms(3) fa by (simp add: sumOverflows_def isFinite_def)
    then show ?thesis
      using assms(1,2) unfolding fa fb by (intro mean_finite)
  qed
qed

text \<open>Two equal elements from \<open>2 ^ 1023\<close> on: their sum overflows.\<close>

lemma big_pair:
  assumes pos: "0 < m" and d: "roundMagnitude m = Some m" and big: "pow2 1023 \<le> m"
  shows "isDouble (Finite False m)"
    and "ascending [Finite False m, Finite False m]"
    and "jsSort [Finite False m, Finite False m] = [Finite False m, Finite False m]"
    and "middleOverflows [Finite False m, Finite False m]"
    and "calculateMedian [Finite False m, Finite False m] = Some (Infinity False)"
    and "middleValue [Finite False m, Finite False m] = Finite False m"
proof -
  show dbl: "isDouble (Finite False m)"
    using pos d by (simp add: isDouble_def)
  show asc: "ascending [Finite False m, Finite False m]"
    by (simp add: ascending_def jsLessEq_def isNaN_def)
  show sorted: "jsSort [Finite False m, Finite False m] = [Finite False m, Finite False m]"
    using dbl asc by (intro jsSort_ascending) simp_all
  have "pow2 1024 = of_int (2 ^ nat (1024 - 1023)) * pow2 1023"
    by (rule pow2_int_mult) simp
  then have "pow2 1024 \<le> m + m" using big by simp
  then have "roundMagnitude (m + m) = None" by (rule roundMagnitude_overflow)
  then have sum: "jsAdd (Finite False m) (Finite False m) = Infinity False"
    using pos by (simp add: toNumber_def valueOf_def)
  then show "middleOverflows [Finite False m, Finite False m]"
    by (simp add: middleOverflows_def sumOverflows_def isFinite_def)
  define F where "F = Finite False m"
  have "calculateMedian [F, F] = Some (jsDiv (jsAdd F F) (num 2))"
    using sorted unfolding F_def [symmetric] by (simp add: calculateMedian_def)
  also have "jsAdd F F = Infinity False"
    using sum by (simp only: F_def)
  also have "jsDiv (Infinity False) (num 2) = Infinity False"
    by (simp add: num_2)
  finally show "calculateMedian [Finite False m, Finite False m] = Some (Infinity False)"
    unfolding F_def .
  show "middleValue [Finite False m, Finite False m] = Finite False m"
    using pos d by (simp add: middleValue_def toNumber_def valueOf_def)
qed

lemma pow2_1023_double:
  "0 < pow2 1023 \<and> roundMagnitude (pow2 1023) = Some (pow2 1023)"
proof -
  have "roundMagnitude (pow2 1023) = Some (pow2 1023)"
    by (rule roundMagnitude_exact [where N = 1 and j = 1023]) (simp_all add: pow2_strict_mono)
  then show ?thesis by simp
qed

text \<open>The result of \<^verbatim>\<open>calculateMedian\<close> and the middle of the sorted copy.\<close>

lemma calculateMedian_middle:
  assumes ne: "xs \<noteq> []" and d: "\<forall>x\<in>set xs. isDouble x" and ov: "\<not> middleOverflows (jsSort xs)"
  shows "calculateMedian xs = Some (middleValue (jsSort xs))"
proof (cases "even (length xs)")
  case False
  then show ?thesis
    using ne by (simp add: calculateMedian_def middleValue_def Let_def even_iff_mod_2_eq_zero)
next
  case True
  let ?s = "jsSort xs"
  let ?a = "?s ! (length xs div 2 - 1)" and ?b = "?s ! (length xs div 2)"
  have len: "0 < length xs" using ne by simp
  then have "length xs div 2 - 1 < length xs" "length xs div 2 < length xs"
    by arith+
  then have "length xs div 2 - 1 < length ?s" "length xs div 2 < length ?s"
    by simp_all
  then have "?a \<in> set ?s" "?b \<in> set ?s"
    by (simp_all only: nth_mem)
  then have "isDouble ?a" "isDouble ?b"
    using d by simp_all
  moreover have "\<not> sumOverflows ?a ?b"
    using ov True by (simp add: middleOverflows_def)
  ultimately have "jsDiv (jsAdd ?a ?b) (num 2) = arithmeticMean ?a ?b"
    by (rule mean_correct)
  then show ?thesis
    using ne True by (simp add: calculateMedian_def middleValue_def Let_def even_iff_mod_2_eq_zero)
qed

lemma calculateMedian_overflow:
  assumes ne: "xs \<noteq> []" and ov: "middleOverflows (jsSort xs)"
  shows "\<exists>s. calculateMedian xs = Some (Infinity s)"
proof -
  let ?s = "jsSort xs"
  let ?a = "?s ! (length xs div 2 - 1)" and ?b = "?s ! (length xs div 2)"
  have even: "even (length xs)" and so: "sumOverflows ?a ?b"
    using ov by (simp_all add: middleOverflows_def)
  obtain s m t n where ab: "?a = Finite s m" "?b = Finite t n"
    using so by (cases ?a; cases ?b) (simp_all add: sumOverflows_def isFinite_def)
  have "\<not> isFinite (toNumber (s \<and> t) (valueOf s m + valueOf t n))"
    using so unfolding ab by (simp add: sumOverflows_def)
  then obtain z where "toNumber (s \<and> t) (valueOf s m + valueOf t n) = Infinity z"
    by (auto simp add: toNumber_def isFinite_def split: if_splits option.splits)
  then have "jsDiv (jsAdd ?a ?b) (num 2) = Infinity z"
    unfolding ab num_2 by simp
  then show ?thesis
    using ne even by (simp add: calculateMedian_def Let_def even_iff_mod_2_eq_zero)
qed

section \<open>The loop over the lines\<close>

lemma processColumns_eq:
  "processColumns st l =
     (if isSampleLine l
      then st\<lparr>allSqmValuesAcc := allSqmValuesAcc st @ [mag (sampleOf l)],
              polarDataAcc := polarDataAcc st @ (if polarValid (sampleOf l) then [sampleOf l] else []),
              sqmValuesForMedian := sqmValuesForMedian st
                 @ (if highAltitude (sampleOf l) then [mag (sampleOf l)] else [])\<rparr>
      else st)"
  by (simp add: processColumns_def isSampleLine_def isBlank_def fieldsOf_def sampleOf_def
      polarValid_def highAltitude_def Let_def)

lemma processColumns_dataStarted [simp]:
  "dataStarted (processColumns st l) = dataStarted st"
  by (simp add: processColumns_eq)

lemma processLine_header:
  "\<not> dataStarted st \<Longrightarrow> isComment l \<or> isBlank l \<Longrightarrow> processLine st l = st"
  by (auto simp add: processLine_def isComment_def isBlank_def)

lemma processLine_first:
  "\<not> dataStarted st \<Longrightarrow> \<not> (isComment l \<or> isBlank l) \<Longrightarrow>
     processLine st l = processColumns (st\<lparr>dataStarted := True\<rparr>) l"
  by (auto simp add: processLine_def isComment_def isBlank_def)

lemma processLine_started:
  "dataStarted st \<Longrightarrow> processLine st l = processColumns st l"
  by (simp add: processLine_def)

lemma processLine_not_sample:
  "\<not> isSampleLine l \<Longrightarrow> dataStarted st \<Longrightarrow> processLine st l = st"
  by (simp add: processLine_started processColumns_eq)

text \<open>Once data have started, the loop appends the samples of the lines it reads.\<close>

lemma foldl_started:
  "dataStarted st \<Longrightarrow>
     foldl processLine st ls =
       st\<lparr>allSqmValuesAcc := allSqmValuesAcc st @ map mag (map sampleOf (filter isSampleLine ls)),
          polarDataAcc := polarDataAcc st @ filter polarValid (map sampleOf (filter isSampleLine ls)),
          sqmValuesForMedian := sqmValuesForMedian st
             @ map mag (filter highAltitude (map sampleOf (filter isSampleLine ls)))\<rparr>"
proof (induction ls arbitrary: st)
  case Nil
  then show ?case by simp
next
  case (Cons l ls)
  have started: "dataStarted (processLine st l)"
    using Cons.prems by (simp add: processLine_started)
  show ?case
    unfolding foldl_Cons Cons.IH [OF started]
    using Cons.prems by (simp add: processLine_started processColumns_eq)
qed

lemma foldl_header:
  "\<not> dataStarted st \<Longrightarrow>
     foldl processLine st ls =
       (if dataRegion ls = [] then st
        else foldl processLine (st\<lparr>dataStarted := True\<rparr>) (dataRegion ls))"
proof (induction ls)
  case Nil
  then show ?case by (simp add: dataRegion_def)
next
  case (Cons l ls)
  show ?case
  proof (cases "isComment l \<or> isBlank l")
    case True
    then have "dataRegion (l # ls) = dataRegion ls"
      by (auto simp add: dataRegion_def)
    then show ?thesis
      using Cons True by (simp add: processLine_header)
  next
    case False
    then have "dataRegion (l # ls) = l # ls"
      by (simp add: dataRegion_def)
    then show ?thesis
      using Cons.prems False by (simp add: processLine_first processLine_started)
  qed
qed

lemma runLines_eq:
  "runLines ls =
     \<lparr>dataStarted = (dataRegion ls \<noteq> []),
      sqmValuesForMedian = map mag (filter highAltitude (parsedSamples ls)),
      allSqmValuesAcc = map mag (parsedSamples ls),
      polarDataAcc = filter polarValid (parsedSamples ls)\<rparr>"
proof (cases "dataRegion ls = []")
  case True
  then show ?thesis
    by (simp add: runLines_def foldl_header initialState_def parsedSamples_def)
next
  case False
  then show ?thesis
    by (simp add: runLines_def foldl_header foldl_started initialState_def parsedSamples_def)
qed

lemma runLines_append:
  "runLines (pre @ ls) = foldl processLine (runLines pre) ls"
  by (simp add: runLines_def)

lemma dataStarted_runLines:
  "dataStarted (runLines ls) = (\<exists>l\<in>set ls. \<not> (isComment l \<or> isBlank l))"
  by (simp add: runLines_eq dataRegion_def dropWhile_eq_Nil_conv)

lemma calculateMedian_None_iff:
  "calculateMedian xs = None \<longleftrightarrow> xs = []"
  by (simp add: calculateMedian_def Let_def)

lemma parseLines_eq:
  "parseLines ls =
     \<lparr>medianSqm = calculateMedian (map mag (filter highAltitude (parsedSamples ls))),
      allSqmValues = map mag (parsedSamples ls),
      polarData = filter polarValid (parsedSamples ls)\<rparr>"
  by (simp add: parseLines_def runLines_eq Let_def calculateMedian_None_iff [THEN iffD2])

lemma processLine_outputs_unchanged:
  assumes "\<not> isSampleLine l"
  shows "allSqmValuesAcc (processLine st l) = allSqmValuesAcc st
    \<and> polarDataAcc (processLine st l) = polarDataAcc st
    \<and> sqmValuesForMedian (processLine st l) = sqmValuesForMedian st"
  using assms by (simp add: processLine_def processColumns_eq)

lemma not_sample_if_short:
  "length (fieldsOf l) < 9 \<Longrightarrow> \<not> isSampleLine l"
  by (simp add: isSampleLine_def)

lemma not_sample_if_NaN:
  "isNaN (parseFloat (fieldsOf l ! 5)) \<Longrightarrow> \<not> isSampleLine l"
  by (simp add: isSampleLine_def)

lemma parsedSamples_mag_not_NaN:
  "p \<in> set (parsedSamples ls) \<Longrightarrow> \<not> isNaN (mag p)"
  by (auto simp add: parsedSamples_def isSampleLine_def sampleOf_def)

subsection \<open>Worked inputs\<close>

text \<open>
  A data line (altitude 46, azimuth 10, magnitude 20.5) followed by a line that starts
  with \<^verbatim>\<open>#\<close> and has nine fields.
\<close>

lemma example_comment_after_data:
  "parseSqm (ascii ''a b t c d 20.5 e 46 10'' @ [0x0A] @ ascii ''# b u c d 21.5 e 50 20'') =
     \<lparr>medianSqm = Some (Finite False 21),
      allSqmValues = [Finite False (41 / 2), Finite False (43 / 2)],
      polarData =
        [\<lparr>time = ascii ''t'', mag = Finite False (41 / 2), alt = Finite False 46, azi = Finite False 10\<rparr>,
         \<lparr>time = ascii ''u'', mag = Finite False (43 / 2), alt = Finite False 50, azi = Finite False 20\<rparr>]\<rparr>"
  by code_simp

lemma example_comment_after_data_lines:
  "splitLines (ascii ''a b t c d 20.5 e 46 10'' @ [0x0A] @ ascii ''# b u c d 21.5 e 50 20'') =
     [ascii ''a b t c d 20.5 e 46 10'', ascii ''# b u c d 21.5 e 50 20'']
   \<and> isComment (ascii ''# b u c d 21.5 e 50 20'')"
  by code_simp

lemma example_data_line:
  "parseSqm (ascii ''a b t c d 20.5 e 46 10'') =
     \<lparr>medianSqm = Some (Finite False (41 / 2)),
      allSqmValues = [Finite False (41 / 2)],
      polarData =
        [\<lparr>time = ascii ''t'', mag = Finite False (41 / 2), alt = Finite False 46, azi = Finite False 10\<rparr>]\<rparr>"
  by code_simp

lemma example_header_comment_lines:
  "splitLines (ascii ''# h'' @ [0x0A] @ ascii ''a b t c d 20.5 e 46 10'') =
     [] @ ascii ''# h'' # [ascii ''a b t c d 20.5 e 46 10'']
   \<and> isComment (ascii ''# h'')"
  by code_simp

text \<open>A line whose field 5 is \<^verbatim>\<open>Infinity\<close>.\<close>

lemma example_infinite_magnitude:
  "9 \<le> length (fieldsOf (ascii ''a b t c d Infinity e 46 10''))
   \<and> parseFloat (fieldsOf (ascii ''a b t c d Infinity e 46 10'') ! 5) = Infinity False
   \<and> parseSqm (ascii ''a b t c d Infinity e 46 10'') =
     \<lparr>medianSqm = Some (Infinity False),
      allSqmValues = [Infinity False],
      polarData =
        [\<lparr>time = ascii ''t'', mag = Infinity False, alt = Finite False 46, azi = Finite False 10\<rparr>]\<rparr>"
  by code_simp

text \<open>A line of eight fields.\<close>

lemma example_eight_fields:
  "splitLines (ascii ''a b t c d 20.5 e 46'') = [] @ ascii ''a b t c d 20.5 e 46'' # []
   \<and> length (fieldsOf (ascii ''a b t c d 20.5 e 46'')) < 9"
  by code_simp

text \<open>A line with azimuth 400, and a line with altitude 30.\<close>

lemma example_azimuth_400:
  "parseSqm (ascii ''a b t c d 20.5 e 46 400'') =
     \<lparr>medianSqm = Some (Finite False (41 / 2)), allSqmValues = [Finite False (41 / 2)], polarData = []\<rparr>"
  by code_simp

lemma example_altitude_30:
  "parseSqm (ascii ''a b t c d 20.5 e 30 10'') =
     \<lparr>medianSqm = None,
      allSqmValues = [Finite False (41 / 2)],
      polarData =
        [\<lparr>time = ascii ''t'', mag = Finite False (41 / 2), alt = Finite False 30, azi = Finite False 10\<rparr>]\<rparr>"
  by code_simp

text \<open>A file of a comment line, an empty line and a line of white space.\<close>

lemma example_no_data:
  "list_all (\<lambda>l. isComment l \<or> isBlank l) (splitLines (ascii ''# h'' @ [0x0A, 0x0A, 0x20, 0x09]))"
  by code_simp

section \<open>Comment lines\<close>

text \<open>
  C1, as the code has it. A line whose trimmed form starts with \<^verbatim>\<open>#\<close> is skipped,
  so that the file parses as it does without the line (the same \<^verbatim>\<open>processedData\<close>
  and the same values for the median), when the line comes before data start, or has
  fewer than nine fields, or has a field 5 that \<^verbatim>\<open>parseFloat\<close> reads as NaN. The loop
  tests for \<^verbatim>\<open>#\<close> only while \<^verbatim>\<open>dataStarted\<close> is false.
\<close>

theorem comment_line_ignored:
  assumes lines: "splitLines textData = pre @ c # post"
    and comment: "isComment c"
    and place: "(\<forall>l\<in>set pre. isComment l \<or> isBlank l)
      \<or> length (fieldsOf c) < 9 \<or> isNaN (parseFloat (fieldsOf c ! 5))"
  shows "parseSqm textData = parseLines (pre @ post)
    \<and> sqmValuesForMedian (runLines (splitLines textData)) = sqmValuesForMedian (runLines (pre @ post))"
proof -
  have skip: "processLine (runLines pre) c = runLines pre"
  proof (cases "dataStarted (runLines pre)")
    case False
    then show ?thesis
      using comment by (simp add: processLine_header)
  next
    case True
    then have "\<not> (\<forall>l\<in>set pre. isComment l \<or> isBlank l)"
      by (simp add: dataStarted_runLines)
    with place have "\<not> isSampleLine c"
      using not_sample_if_short not_sample_if_NaN by blast
    then show ?thesis
      using True by (simp add: processLine_not_sample)
  qed
  have "runLines (pre @ c # post) = foldl processLine (processLine (runLines pre) c) post"
    by (simp add: runLines_def)
  also have "\<dots> = runLines (pre @ post)"
    by (simp add: skip runLines_append)
  finally have "runLines (splitLines textData) = runLines (pre @ post)"
    using lines by simp
  then show ?thesis
    by (simp add: parseSqm_def parseLines_def)
qed

theorem comment_line_ignored_witness:
  "parseSqm (ascii ''# h'' @ [0x0A] @ ascii ''a b t c d 20.5 e 46 10'')
     = parseLines ([] @ [ascii ''a b t c d 20.5 e 46 10''])"
proof -
  have place: "(\<forall>l\<in>set ([] :: jsstring list). isComment l \<or> isBlank l)
      \<or> length (fieldsOf (ascii ''# h'')) < 9 \<or> isNaN (parseFloat (fieldsOf (ascii ''# h'') ! 5))"
    by simp
  show ?thesis
    using comment_line_ignored [OF conjunct1 [OF example_header_comment_lines]
        conjunct2 [OF example_header_comment_lines] place]
    by simp
qed

text \<open>
  C1 as it is stated fails after data start: the second line below starts with \<^verbatim>\<open>#\<close>,
  and its magnitude 21.5 is in \<^verbatim>\<open>allSqmValues\<close>, its sample in \<^verbatim>\<open>polarData\<close>, and
  the median is that of 20.5 and 21.5; the first line alone gives 20.5 only.
\<close>

theorem comment_after_data_counterexample:
  "splitLines (ascii ''a b t c d 20.5 e 46 10'' @ [0x0A] @ ascii ''# b u c d 21.5 e 50 20'') =
     [ascii ''a b t c d 20.5 e 46 10'', ascii ''# b u c d 21.5 e 50 20'']
   \<and> isComment (ascii ''# b u c d 21.5 e 50 20'')
   \<and> parseSqm (ascii ''a b t c d 20.5 e 46 10'' @ [0x0A] @ ascii ''# b u c d 21.5 e 50 20'') =
     \<lparr>medianSqm = Some (Finite False 21),
      allSqmValues = [Finite False (41 / 2), Finite False (43 / 2)],
      polarData =
        [\<lparr>time = ascii ''t'', mag = Finite False (41 / 2), alt = Finite False 46, azi = Finite False 10\<rparr>,
         \<lparr>time = ascii ''u'', mag = Finite False (43 / 2), alt = Finite False 50, azi = Finite False 20\<rparr>]\<rparr>
   \<and> parseSqm (ascii ''a b t c d 20.5 e 46 10'') =
     \<lparr>medianSqm = Some (Finite False (41 / 2)),
      allSqmValues = [Finite False (41 / 2)],
      polarData =
        [\<lparr>time = ascii ''t'', mag = Finite False (41 / 2), alt = Finite False 46, azi = Finite False 10\<rparr>]\<rparr>"
  using example_comment_after_data example_comment_after_data_lines example_data_line
  by blast

section \<open>Malformed lines\<close>

text \<open>
  C2, as the code has it. A line that splits into fewer than nine fields, or whose field
  5 \<^verbatim>\<open>parseFloat\<close> reads as NaN, adds nothing: \<^verbatim>\<open>allSqmValues\<close>, \<^verbatim>\<open>polarData\<close>
  and the values for the median are after the line what they were before it. (The test of
  the code is \<^verbatim>\<open>!isNaN(mag)\<close>.)
\<close>

theorem malformed_line_dropped:
  assumes lines: "splitLines textData = pre @ l # post"
    and malformed: "length (fieldsOf l) < 9 \<or> isNaN (parseFloat (fieldsOf l ! 5))"
  shows "allSqmValuesAcc (runLines (pre @ [l])) = allSqmValuesAcc (runLines pre)
    \<and> polarDataAcc (runLines (pre @ [l])) = polarDataAcc (runLines pre)
    \<and> sqmValuesForMedian (runLines (pre @ [l])) = sqmValuesForMedian (runLines pre)"
proof -
  from malformed have "\<not> isSampleLine l"
    using not_sample_if_short not_sample_if_NaN by blast
  then show ?thesis
    using processLine_outputs_unchanged [of l "runLines pre"]
    by (simp add: runLines_append)
qed

theorem malformed_line_dropped_witness:
  "allSqmValuesAcc (runLines ([] @ [ascii ''a b t c d 20.5 e 46''])) = allSqmValuesAcc (runLines [])
   \<and> polarDataAcc (runLines ([] @ [ascii ''a b t c d 20.5 e 46''])) = polarDataAcc (runLines [])
   \<and> sqmValuesForMedian (runLines ([] @ [ascii ''a b t c d 20.5 e 46''])) = sqmValuesForMedian (runLines [])"
  using malformed_line_dropped [OF conjunct1 [OF example_eight_fields]
      disjI1 [OF conjunct2 [OF example_eight_fields]]] .

text \<open>
  C2 as it is stated fails for a field 5 that parses to a value that is not finite: the
  line below has nine fields and the magnitude \<^verbatim>\<open>Infinity\<close>, which is in
  \<^verbatim>\<open>allSqmValues\<close>, in \<^verbatim>\<open>polarData\<close> and in the median.
\<close>

theorem infinite_magnitude_counterexample:
  "9 \<le> length (fieldsOf (ascii ''a b t c d Infinity e 46 10''))
   \<and> parseFloat (fieldsOf (ascii ''a b t c d Infinity e 46 10'') ! 5) = Infinity False
   \<and> parseSqm (ascii ''a b t c d Infinity e 46 10'') =
     \<lparr>medianSqm = Some (Infinity False),
      allSqmValues = [Infinity False],
      polarData =
        [\<lparr>time = ascii ''t'', mag = Infinity False, alt = Finite False 46, azi = Finite False 10\<rparr>]\<rparr>"
  using example_infinite_magnitude .

section \<open>The median of the high altitudes\<close>

text \<open>The literal \<^verbatim>\<open>1e308\<close>: a finite Number from \<open>2 ^ 1023\<close> on.\<close>

lemma parseFloat_unsigned:
  assumes "s \<noteq> []" "\<not> isWhiteSpace (hd s)" "hd s \<noteq> 0x2B" "hd s \<noteq> 0x2D"
  shows "parseFloat s =
     (case strUnsignedDecimalLiteral s of
        None \<Rightarrow> NaN
      | Some MVInfinity \<Rightarrow> Infinity False
      | Some (MVReal v) \<Rightarrow> toNumber False v)"
proof -
  obtain c r where s: "s = c # r" using assms(1) by (cases s) simp_all
  show ?thesis
    using assms(2-4) unfolding s
    by (simp add: parseFloat_def Let_def split: option.splits mathValue.splits)
qed

lemma literal_1e308:
  "ascii ''1e308'' \<noteq> [] \<and> \<not> isWhiteSpace (hd (ascii ''1e308''))
   \<and> hd (ascii ''1e308'') \<noteq> 0x2B \<and> hd (ascii ''1e308'') \<noteq> 0x2D
   \<and> strUnsignedDecimalLiteral (ascii ''1e308'') = Some (MVReal (pow10 308))"
  by code_simp

lemma pow10_308_bounds:
  "pow2 1023 \<le> pow10 308 \<and> pow10 308 \<le> 3 * pow2 1022"
  by (simp add: pow2_def pow10_def)

lemma parseFloat_1e308:
  "\<exists>m. parseFloat (ascii ''1e308'') = Finite False m \<and> 0 < m \<and> roundMagnitude m = Some m
     \<and> pow2 1023 \<le> m"
proof -
  have parsed: "parseFloat (ascii ''1e308'') = toNumber False (pow10 308)"
    using literal_1e308 by (simp add: parseFloat_unsigned)
  have lo: "pow2 1023 \<le> pow10 308" and hi: "pow10 308 \<le> 3 * pow2 1022"
    using pow10_308_bounds by simp_all
  have pos: "0 < pow10 308"
    using pow2_pos lo by (rule less_le_trans)
  have "pow2 1024 = of_int (2 ^ nat (1024 - 1022)) * pow2 1022"
    by (rule pow2_int_mult) simp
  then have top: "3 * pow2 1022 < pow2 1024"
    using pow2_pos [of 1022] by simp
  have "pow2 1075 = of_int (2 ^ nat (1075 - 1024)) * pow2 1024"
    by (rule pow2_int_mult) simp
  then have "pow2 1024 \<le> pow2 (1022 + 53)"
    using pow2_pos [of 1024] by simp
  then have bits: "3 * pow2 1022 < pow2 (1022 + 53)"
    using top by simp
  have c: "roundMagnitude (3 * pow2 1022) = Some (3 * pow2 1022)"
  proof (rule roundMagnitude_exact [where N = 3 and j = 1022])
    show "0 < 3 * pow2 1022" using pow2_pos [of 1022] by simp
    show "3 * pow2 1022 = of_int 3 * pow2 1022" by simp
    show "- 1074 \<le> (1022 :: int)" by simp
    show "3 * pow2 1022 < pow2 (1022 + 53)" by (rule bits)
    show "3 * pow2 1022 < pow2 1024" by (rule top)
  qed
  obtain m where m: "roundMagnitude (pow10 308) = Some m"
    using roundMagnitude_le [OF pos hi c] by blast
  have big: "pow2 1023 \<le> m"
    using _ lo m by (rule roundMagnitude_ge_pow2) simp
  have mpos: "0 < m"
    using pow2_pos big by (rule less_le_trans)
  have "m = 0 \<or> (0 < m \<and> roundMagnitude m = Some m)"
    using pos m by (rule roundMagnitude_idem)
  then have idem: "roundMagnitude m = Some m" using mpos by simp
  have "parseFloat (ascii ''1e308'') = Finite False m"
    unfolding parsed using pos m by (simp add: toNumber_def)
  then show ?thesis
    using mpos idem big by blast
qed

text \<open>Two lines with the magnitude \<^verbatim>\<open>1e308\<close> and the altitude 46.\<close>

lemma example_overflow_lines:
  "splitLines (ascii ''a b t c d 1e308 e 46 10'' @ [0x0A] @ ascii ''a b t c d 1e308 e 46 10'') =
     [ascii ''a b t c d 1e308 e 46 10'', ascii ''a b t c d 1e308 e 46 10'']
   \<and> \<not> isComment (ascii ''a b t c d 1e308 e 46 10'')
   \<and> \<not> isBlank (ascii ''a b t c d 1e308 e 46 10'')
   \<and> 9 \<le> length (fieldsOf (ascii ''a b t c d 1e308 e 46 10''))
   \<and> fieldsOf (ascii ''a b t c d 1e308 e 46 10'') ! 5 = ascii ''1e308''
   \<and> parseFloat (fieldsOf (ascii ''a b t c d 1e308 e 46 10'') ! 7) = Finite False 46
   \<and> jsGreater (Finite False 46) (num 45)"
  by code_simp

lemma example_overflow_buffer:
  "map mag (filter highAltitude (parsedSamples
      (splitLines (ascii ''a b t c d 1e308 e 46 10'' @ [0x0A] @ ascii ''a b t c d 1e308 e 46 10''))))
     = [parseFloat (ascii ''1e308''), parseFloat (ascii ''1e308'')]"
proof -
  define L where "L = ascii ''a b t c d 1e308 e 46 10''"
  have lines: "splitLines (L @ [0x0A] @ L) = [L, L]"
    and data: "\<not> isComment L" "\<not> isBlank L"
    and count: "9 \<le> length (fieldsOf L)"
    and magnitude: "fieldsOf L ! 5 = ascii ''1e308''"
    and altitude: "parseFloat (fieldsOf L ! 7) = Finite False 46"
    and above: "jsGreater (Finite False 46) (num 45)"
    using example_overflow_lines unfolding L_def by blast+
  have "\<not> isNaN (parseFloat (ascii ''1e308''))"
    using parseFloat_1e308 by (auto simp add: isNaN_def)
  then have sample: "isSampleLine L"
    using data count magnitude by (simp add: isSampleLine_def)
  have high: "highAltitude (sampleOf L)"
    using altitude above by (simp add: highAltitude_def sampleOf_def isNaN_def)
  have "mag (sampleOf L) = parseFloat (ascii ''1e308'')"
    using magnitude by (simp add: sampleOf_def)
  then have buffer: "map mag (filter highAltitude (parsedSamples [L, L]))
      = [parseFloat (ascii ''1e308''), parseFloat (ascii ''1e308'')]"
    using data sample high by (simp add: parsedSamples_def dataRegion_def)
  show ?thesis
    unfolding L_def [symmetric] lines by (fact buffer)
qed

text \<open>
  C3, as the code has it. The values for the median are the magnitudes of exactly the
  samples whose altitude is a number above 45, in the order of the lines, and
  \<^verbatim>\<open>medianSqm\<close> is \<^verbatim>\<open>null\<close> exactly when there is no such sample. When there is one,
  the sorted copy of these values is ascending and a permutation of them, and
  \<^verbatim>\<open>medianSqm\<close> is the median of the values, the middle of the sorted copy, unless the
  count is even and the sum of the two middle values overflows: then \<^verbatim>\<open>medianSqm\<close> is an
  infinity. \<^verbatim>\<open>allSqmValues\<close> holds the magnitude of every sample. A line with altitude 30
  gives its magnitude to \<^verbatim>\<open>allSqmValues\<close> and nothing to the median.
\<close>

theorem median_of_high_altitude:
  "sqmValuesForMedian (runLines (splitLines textData)) =
     map mag (filter highAltitude (parsedSamples (splitLines textData)))
   \<and> (medianSqm (parseSqm textData) = None) =
     (filter highAltitude (parsedSamples (splitLines textData)) = [])
   \<and> (filter highAltitude (parsedSamples (splitLines textData)) \<noteq> [] \<longrightarrow>
        ascending (jsSort (map mag (filter highAltitude (parsedSamples (splitLines textData)))))
        \<and> mset (jsSort (map mag (filter highAltitude (parsedSamples (splitLines textData)))))
          = mset (map mag (filter highAltitude (parsedSamples (splitLines textData))))
        \<and> (\<not> middleOverflows (jsSort (map mag (filter highAltitude (parsedSamples (splitLines textData)))))
            \<longrightarrow> medianSqm (parseSqm textData) =
              Some (middleValue (jsSort (map mag (filter highAltitude (parsedSamples (splitLines textData)))))))
        \<and> (middleOverflows (jsSort (map mag (filter highAltitude (parsedSamples (splitLines textData)))))
            \<longrightarrow> (\<exists>s. medianSqm (parseSqm textData) = Some (Infinity s))))
   \<and> medianSqm (parseSqm textData) =
     calculateMedian (map mag (filter highAltitude (parsedSamples (splitLines textData))))
   \<and> allSqmValues (parseSqm textData) = map mag (parsedSamples (splitLines textData))
   \<and> allSqmValues (parseSqm (ascii ''a b t c d 20.5 e 30 10'')) = [Finite False (41 / 2)]
   \<and> medianSqm (parseSqm (ascii ''a b t c d 20.5 e 30 10'')) = None
   \<and> sqmValuesForMedian (runLines (splitLines (ascii ''a b t c d 20.5 e 30 10''))) = []"
proof -
  define B where "B = (\<lambda>t. map mag (filter highAltitude (parsedSamples (splitLines t))))"
  have general: "medianSqm (parseSqm t) = calculateMedian (B t)
     \<and> sqmValuesForMedian (runLines (splitLines t)) = B t
     \<and> (medianSqm (parseSqm t) = None) = (filter highAltitude (parsedSamples (splitLines t)) = [])
     \<and> allSqmValues (parseSqm t) = map mag (parsedSamples (splitLines t))" for t
    by (simp add: B_def parseSqm_def parseLines_eq runLines_eq calculateMedian_None_iff)
  have numbers: "\<forall>y\<in>set (B t). isDouble y \<and> y \<noteq> NaN" for t
    using parsedSamples_doubles parsedSamples_mag_not_NaN
    by (fastforce simp add: B_def isNaN_def)
  have median: "ascending (jsSort (B textData)) \<and> mset (jsSort (B textData)) = mset (B textData)
      \<and> (\<not> middleOverflows (jsSort (B textData))
           \<longrightarrow> medianSqm (parseSqm textData) = Some (middleValue (jsSort (B textData))))
      \<and> (middleOverflows (jsSort (B textData))
           \<longrightarrow> (\<exists>s. medianSqm (parseSqm textData) = Some (Infinity s)))"
    if "filter highAltitude (parsedSamples (splitLines textData)) \<noteq> []"
  proof -
    have ne: "B textData \<noteq> []" using that by (simp add: B_def)
    have d: "\<forall>x\<in>set (B textData). isDouble x" using numbers by blast
    have "ascending (jsSort (B textData))"
      using numbers by (rule ascending_jsSort)
    then show ?thesis
      using calculateMedian_middle [OF ne d] calculateMedian_overflow [OF ne] general [of textData]
      by simp
  qed
  have none: "medianSqm (parseSqm (ascii ''a b t c d 20.5 e 30 10'')) = None"
    by (simp add: example_altitude_30)
  have "filter highAltitude (parsedSamples (splitLines (ascii ''a b t c d 20.5 e 30 10''))) = []"
    using general [of "ascii ''a b t c d 20.5 e 30 10''"] none by blast
  then have empty: "sqmValuesForMedian (runLines (splitLines (ascii ''a b t c d 20.5 e 30 10''))) = []"
    using general [of "ascii ''a b t c d 20.5 e 30 10''"] by (simp add: B_def)
  have "allSqmValues (parseSqm (ascii ''a b t c d 20.5 e 30 10'')) = [Finite False (41 / 2)]"
    by (simp add: example_altitude_30)
  then show ?thesis
    using general [of textData] median none empty unfolding B_def by blast
qed

lemma example_data_line_buffer:
  "filter highAltitude (parsedSamples (splitLines (ascii ''a b t c d 20.5 e 46 10''))) \<noteq> []
   \<and> jsSort (map mag (filter highAltitude (parsedSamples (splitLines (ascii ''a b t c d 20.5 e 46 10'')))))
       = [Finite False (41 / 2)]
   \<and> \<not> middleOverflows [Finite False (41 / 2)]
   \<and> middleValue [Finite False (41 / 2)] = Finite False (41 / 2)"
  by code_simp

theorem median_of_high_altitude_witness:
  "medianSqm (parseSqm (ascii ''a b t c d 20.5 e 46 10'')) =
     Some (middleValue (jsSort (map mag (filter highAltitude
       (parsedSamples (splitLines (ascii ''a b t c d 20.5 e 46 10'')))))))
   \<and> medianSqm (parseSqm (ascii ''a b t c d 20.5 e 46 10'')) = Some (Finite False (41 / 2))"
  using median_of_high_altitude [of "ascii ''a b t c d 20.5 e 46 10''"] example_data_line_buffer
  by simp

text \<open>
  C3 as it is stated fails where the sum of the two middle values overflows: both lines
  below have the magnitude \<^verbatim>\<open>1e308\<close>, a finite Number, and the altitude 46. The values
  for the median are this Number twice, their median is this Number, and \<^verbatim>\<open>medianSqm\<close>
  is \<^verbatim>\<open>Infinity\<close>.
\<close>

theorem median_of_high_altitude_counterexample:
  "sqmValuesForMedian (runLines (splitLines
      (ascii ''a b t c d 1e308 e 46 10'' @ [0x0A] @ ascii ''a b t c d 1e308 e 46 10'')))
     = [parseFloat (ascii ''1e308''), parseFloat (ascii ''1e308'')]
   \<and> isFinite (parseFloat (ascii ''1e308''))
   \<and> jsSort [parseFloat (ascii ''1e308''), parseFloat (ascii ''1e308'')]
     = [parseFloat (ascii ''1e308''), parseFloat (ascii ''1e308'')]
   \<and> middleValue [parseFloat (ascii ''1e308''), parseFloat (ascii ''1e308'')]
     = parseFloat (ascii ''1e308'')
   \<and> medianSqm (parseSqm
      (ascii ''a b t c d 1e308 e 46 10'' @ [0x0A] @ ascii ''a b t c d 1e308 e 46 10''))
     = Some (Infinity False)"
proof -
  obtain m where X: "parseFloat (ascii ''1e308'') = Finite False m"
    and m: "0 < m" "roundMagnitude m = Some m" "pow2 1023 \<le> m"
    using parseFloat_1e308 by blast
  note pair = big_pair [OF m]
  have "medianSqm (parseSqm
      (ascii ''a b t c d 1e308 e 46 10'' @ [0x0A] @ ascii ''a b t c d 1e308 e 46 10''))
     = calculateMedian [parseFloat (ascii ''1e308''), parseFloat (ascii ''1e308'')]"
    unfolding example_overflow_buffer [symmetric] by (simp add: parseSqm_def parseLines_eq)
  moreover have "sqmValuesForMedian (runLines (splitLines
      (ascii ''a b t c d 1e308 e 46 10'' @ [0x0A] @ ascii ''a b t c d 1e308 e 46 10'')))
     = [parseFloat (ascii ''1e308''), parseFloat (ascii ''1e308'')]"
    unfolding example_overflow_buffer [symmetric] by (simp add: runLines_eq)
  ultimately show ?thesis
    unfolding X using pair(3,5,6) by (simp add: isFinite_def)
qed

section \<open>The samples of the polar plot\<close>

text \<open>
  C7. \<^verbatim>\<open>polarData\<close> holds, in the order of the lines, exactly the samples with a time
  that is not empty, an altitude that is a number in \<open>[0, 90]\<close> and an azimuth that is a
  number in \<open>[0, 360]\<close>, and \<^verbatim>\<open>allSqmValues\<close> holds the magnitude of every sample. Line by
  line: a line at or after data start that gives a sample adds its magnitude to
  \<^verbatim>\<open>allSqmValues\<close>, and its sample to \<^verbatim>\<open>polarData\<close> if and only if these conditions
  hold. A line with azimuth 400 is in \<^verbatim>\<open>allSqmValues\<close> and not in \<^verbatim>\<open>polarData\<close>.
\<close>

theorem polar_samples:
  "polarData (parseSqm textData) = filter polarValid (parsedSamples (splitLines textData))
   \<and> allSqmValues (parseSqm textData) = map mag (parsedSamples (splitLines textData))
   \<and> (splitLines textData = pre @ l # post \<and> isSampleLine l
        \<and> ((\<exists>h\<in>set pre. \<not> (isComment h \<or> isBlank h)) \<or> \<not> isComment l)
      \<longrightarrow> allSqmValuesAcc (runLines (pre @ [l])) = allSqmValuesAcc (runLines pre) @ [mag (sampleOf l)]
        \<and> polarDataAcc (runLines (pre @ [l])) =
            polarDataAcc (runLines pre) @ (if polarValid (sampleOf l) then [sampleOf l] else []))
   \<and> polarData (parseSqm (ascii ''a b t c d 20.5 e 46 400'')) = []
   \<and> allSqmValues (parseSqm (ascii ''a b t c d 20.5 e 46 400'')) = [Finite False (41 / 2)]"
proof -
  have global: "polarData (parseSqm textData) = filter polarValid (parsedSamples (splitLines textData))
     \<and> allSqmValues (parseSqm textData) = map mag (parsedSamples (splitLines textData))"
    by (simp add: parseSqm_def parseLines_eq)
  have line: "allSqmValuesAcc (runLines (pre @ [l])) = allSqmValuesAcc (runLines pre) @ [mag (sampleOf l)]
        \<and> polarDataAcc (runLines (pre @ [l])) =
            polarDataAcc (runLines pre) @ (if polarValid (sampleOf l) then [sampleOf l] else [])"
    if sample: "isSampleLine l"
      and place: "(\<exists>h\<in>set pre. \<not> (isComment h \<or> isBlank h)) \<or> \<not> isComment l"
  proof (cases "dataStarted (runLines pre)")
    case True
    then show ?thesis
      using sample by (simp add: runLines_append processLine_started processColumns_eq)
  next
    case False
    then have "\<not> (\<exists>h\<in>set pre. \<not> (isComment h \<or> isBlank h))"
      using dataStarted_runLines [of pre] by blast
    with place have "\<not> isComment l"
      by blast
    moreover have "\<not> isBlank l"
      using sample by (simp add: isSampleLine_def)
    ultimately show ?thesis
      using False sample by (simp add: runLines_append processLine_first processColumns_eq)
  qed
  show ?thesis
    using global line by (simp add: example_azimuth_400)
qed

theorem polar_samples_witness:
  "allSqmValuesAcc (runLines ([] @ [ascii ''a b t c d 20.5 e 46 400''])) =
     allSqmValuesAcc (runLines []) @ [mag (sampleOf (ascii ''a b t c d 20.5 e 46 400''))]
   \<and> polarDataAcc (runLines ([] @ [ascii ''a b t c d 20.5 e 46 400''])) =
       polarDataAcc (runLines []) @
         (if polarValid (sampleOf (ascii ''a b t c d 20.5 e 46 400''))
          then [sampleOf (ascii ''a b t c d 20.5 e 46 400'')] else [])
   \<and> isSampleLine (ascii ''a b t c d 20.5 e 46 400'')
   \<and> polarValid (sampleOf (ascii ''a b t c d 20.5 e 46 400'')) = False"
proof -
  have hyp: "splitLines (ascii ''a b t c d 20.5 e 46 400'') = [] @ ascii ''a b t c d 20.5 e 46 400'' # []
      \<and> isSampleLine (ascii ''a b t c d 20.5 e 46 400'')
      \<and> \<not> isComment (ascii ''a b t c d 20.5 e 46 400'')
      \<and> polarValid (sampleOf (ascii ''a b t c d 20.5 e 46 400'')) = False"
    by code_simp
  show ?thesis
    using polar_samples [of "ascii ''a b t c d 20.5 e 46 400''" "[]" "ascii ''a b t c d 20.5 e 46 400''" "[]"] hyp
    by blast
qed

section \<open>The parser always returns\<close>

text \<open>
  C8. The parser is a total function: no step of it can raise (the four reads of
  \<^verbatim>\<open>columns\<close> are under \<^verbatim>\<open>columns.length >= 9\<close>, and \<^verbatim>\<open>parseFloat\<close> gives NaN for
  a field that is not a number). Its result is well formed for every text, and when every
  line is a comment or blank it is \<^verbatim>\<open>{ medianSqm: null, allSqmValues: [], polarData: [] }\<close>.
\<close>

theorem parse_always_well_formed:
  "wellFormed (parseSqm textData)
   \<and> ((\<forall>l\<in>set (splitLines textData). isComment l \<or> isBlank l) \<longrightarrow> parseSqm textData = emptyData)"
proof -
  let ?S = "parsedSamples (splitLines textData)"
  have median: "case calculateMedian (map mag (filter highAltitude ?S)) of
      None \<Rightarrow> True | Some m \<Rightarrow> isDouble m"
    using isDouble_calculateMedian [of "map mag (filter highAltitude ?S)"] parsedSamples_doubles
    by (auto split: option.splits)
  have "wellFormed (parseSqm textData)"
    using parsedSamples_mag_not_NaN parsedSamples_doubles median
    by (auto simp add: wellFormed_def parseSqm_def parseLines_eq list_all_iff)
  moreover have "parseSqm textData = emptyData"
    if "\<forall>l\<in>set (splitLines textData). isComment l \<or> isBlank l"
  proof -
    from that have "dataRegion (splitLines textData) = []"
      by (simp add: dataRegion_def)
    then show ?thesis
      by (simp add: parseSqm_def parseLines_eq parsedSamples_def emptyData_def calculateMedian_def)
  qed
  ultimately show ?thesis
    by blast
qed

theorem parse_always_well_formed_witness:
  "wellFormed (parseSqm (ascii ''# h'' @ [0x0A, 0x0A, 0x20, 0x09]))
   \<and> parseSqm (ascii ''# h'' @ [0x0A, 0x0A, 0x20, 0x09]) = emptyData"
  using parse_always_well_formed [of "ascii ''# h'' @ [0x0A, 0x0A, 0x20, 0x09]"]
    example_no_data [unfolded list_all_iff]
  by blast

section \<open>The parser is deterministic\<close>

text \<open>The transition relation and the functions describe the same runs.\<close>

lemma polarStep_iff:
  "polarStep st p st' \<longleftrightarrow>
     st' = (if polarValid p then st\<lparr>polarDataAcc := polarDataAcc st @ [p]\<rparr> else st)"
  unfolding polarStep.simps polarValid_def by auto

lemma medianStep_iff:
  "medianStep st p st' \<longleftrightarrow>
     st' = (if highAltitude p then st\<lparr>sqmValuesForMedian := sqmValuesForMedian st @ [mag p]\<rparr> else st)"
  unfolding medianStep.simps highAltitude_def by auto

lemma columnsStep_iff:
  "columnsStep st line st' \<longleftrightarrow> st' = processColumns st line"
  unfolding columnsStep.simps polarStep_iff medianStep_iff
  by (auto simp add: processColumns_def Let_def polarValid_def highAltitude_def)

lemma lineStep_iff:
  "lineStep st line st' \<longleftrightarrow> st' = processLine st line"
  unfolding lineStep.simps columnsStep_iff
  by (auto simp add: processLine_def)

lemma loopRun_iff:
  "loopRun st ls st' \<longleftrightarrow> st' = foldl processLine st ls"
proof
  show "loopRun st ls st' \<Longrightarrow> st' = foldl processLine st ls"
    by (induction rule: loopRun.induct) (simp_all add: lineStep_iff)
next
  have "loopRun st ls (foldl processLine st ls)"
  proof (induction ls arbitrary: st)
    case Nil
    show ?case by (simp add: loopDone)
  next
    case (Cons l ls)
    have "lineStep st l (processLine st l)"
      by (simp add: lineStep_iff)
    then show ?case
      using Cons [of "processLine st l"] by (simp add: loopTurn)
  qed
  then show "st' = foldl processLine st ls \<Longrightarrow> loopRun st ls st'"
    by simp
qed

lemma parses_iff:
  "parses textData d \<longleftrightarrow> d = parseSqm textData"
  unfolding parses.simps loopRun_iff
  by (auto simp add: parseSqm_def parseLines_def runLines_def Let_def)

text \<open>A second call for the same address.\<close>

lemma fetchAndParseSqm_again:
  "fst (fetchAndParseSqm fetch (snd (fetchAndParseSqm fetch sqmCache url)) url)
     = fst (fetchAndParseSqm fetch sqmCache url)
   \<and> snd (fetchAndParseSqm fetch (snd (fetchAndParseSqm fetch sqmCache url)) url)
     = snd (fetchAndParseSqm fetch sqmCache url)"
proof (cases "cacheRead sqmCache url")
  case (Some found)
  then show ?thesis by (simp add: fetchAndParseSqm_def)
next
  case None
  show ?thesis
  proof (cases "fetch url")
    case Rejected
    then show ?thesis using None by (simp add: fetchAndParseSqm_def)
  next
    case (Response ok textData)
    then show ?thesis
      using None by (cases ok) (simp_all add: fetchAndParseSqm_def cacheRead_def Let_def)
  qed
qed

lemma example_address:
  "ascii ''u'' \<notin> set objectPrototypeKeys"
  by code_simp

text \<open>
  C9. Parsing is deterministic. Every text has a run of the parser, and two runs on the
  same text end with the same \<^verbatim>\<open>processedData\<close>: the same \<^verbatim>\<open>medianSqm\<close>, the same
  \<^verbatim>\<open>allSqmValues\<close> and the same \<^verbatim>\<open>polarData\<close>. For \<^verbatim>\<open>fetchAndParseSqm\<close>, with a
  transport that answers an address the same way each time: a second call for the same
  address returns what the first call returned and leaves the cache as the first call
  left it; a call for an address that is not in the cache (and is not a property of
  \<^verbatim>\<open>Object.prototype\<close>) returns the data of the one run on the text of the response and
  stores it, so that the next call finds it in the cache; and two addresses with the same
  text, both not in the cache, give equal data.
\<close>

theorem parse_deterministic:
  "(\<exists>d. parses textData d)
   \<and> (parses textData d1 \<and> parses textData d2 \<longrightarrow>
        d1 = d2 \<and> medianSqm d1 = medianSqm d2 \<and> allSqmValues d1 = allSqmValues d2
        \<and> polarData d1 = polarData d2)
   \<and> fst (fetchAndParseSqm fetch (snd (fetchAndParseSqm fetch sqmCache url)) url)
       = fst (fetchAndParseSqm fetch sqmCache url)
   \<and> snd (fetchAndParseSqm fetch (snd (fetchAndParseSqm fetch sqmCache url)) url)
       = snd (fetchAndParseSqm fetch sqmCache url)
   \<and> (sqmCache url = None \<and> url \<notin> set objectPrototypeKeys \<and> fetch url = Response True textData
        \<and> parses textData d1 \<longrightarrow>
        fetchAndParseSqm fetch sqmCache url = (Data d1, sqmCache(url \<mapsto> d1))
        \<and> cacheRead (sqmCache(url \<mapsto> d1)) url = Some (Data d1)
        \<and> fetchAndParseSqm fetch (sqmCache(url \<mapsto> d1)) url = (Data d1, sqmCache(url \<mapsto> d1)))
   \<and> (sqmCache url = None \<and> url \<notin> set objectPrototypeKeys \<and> fetch url = Response True textData
        \<and> otherCache other = None \<and> other \<notin> set objectPrototypeKeys
        \<and> fetch other = Response True textData \<longrightarrow>
        fst (fetchAndParseSqm fetch sqmCache url) = fst (fetchAndParseSqm fetch otherCache other))"
proof -
  have run: "\<exists>d. parses textData d"
    by (simp add: parses_iff)
  have unique: "parses textData d1 \<and> parses textData d2 \<longrightarrow>
        d1 = d2 \<and> medianSqm d1 = medianSqm d2 \<and> allSqmValues d1 = allSqmValues d2
        \<and> polarData d1 = polarData d2"
    by (simp add: parses_iff)
  have miss: "fetchAndParseSqm fetch c a = (Data (parseSqm textData), c(a \<mapsto> parseSqm textData))"
    if "c a = None" "a \<notin> set objectPrototypeKeys" "fetch a = Response True textData" for c a
    using that by (simp add: fetchAndParseSqm_def cacheRead_def Let_def)
  have hit: "fetchAndParseSqm fetch (c(a \<mapsto> d)) a = (Data d, c(a \<mapsto> d))
      \<and> cacheRead (c(a \<mapsto> d)) a = Some (Data d)" for c a d
    by (simp add: fetchAndParseSqm_def cacheRead_def)
  show ?thesis
    using run unique fetchAndParseSqm_again [of fetch sqmCache url] miss hit
    by (simp add: parses_iff)
qed

theorem parse_deterministic_witness:
  "parses (ascii ''a b t c d 20.5 e 46 10'')
     \<lparr>medianSqm = Some (Finite False (41 / 2)),
      allSqmValues = [Finite False (41 / 2)],
      polarData =
        [\<lparr>time = ascii ''t'', mag = Finite False (41 / 2), alt = Finite False 46, azi = Finite False 10\<rparr>]\<rparr>
   \<and> fetchAndParseSqm (\<lambda>a. Response True (ascii ''a b t c d 20.5 e 46 10'')) Map.empty (ascii ''u'') =
       (Data \<lparr>medianSqm = Some (Finite False (41 / 2)),
          allSqmValues = [Finite False (41 / 2)],
          polarData =
            [\<lparr>time = ascii ''t'', mag = Finite False (41 / 2), alt = Finite False 46, azi = Finite False 10\<rparr>]\<rparr>,
        Map.empty(ascii ''u'' \<mapsto>
          \<lparr>medianSqm = Some (Finite False (41 / 2)),
           allSqmValues = [Finite False (41 / 2)],
           polarData =
             [\<lparr>time = ascii ''t'', mag = Finite False (41 / 2), alt = Finite False 46, azi = Finite False 10\<rparr>]\<rparr>))
   \<and> fst (fetchAndParseSqm (\<lambda>a. Response True (ascii ''a b t c d 20.5 e 46 10''))
       (snd (fetchAndParseSqm (\<lambda>a. Response True (ascii ''a b t c d 20.5 e 46 10'')) Map.empty (ascii ''u'')))
       (ascii ''u'')) =
       Data \<lparr>medianSqm = Some (Finite False (41 / 2)),
          allSqmValues = [Finite False (41 / 2)],
          polarData =
            [\<lparr>time = ascii ''t'', mag = Finite False (41 / 2), alt = Finite False 46, azi = Finite False 10\<rparr>]\<rparr>
   \<and> cacheRead (snd (fetchAndParseSqm (\<lambda>a. Response True (ascii ''a b t c d 20.5 e 46 10'')) Map.empty (ascii ''u'')))
       (ascii ''u'') =
       Some (Data \<lparr>medianSqm = Some (Finite False (41 / 2)),
          allSqmValues = [Finite False (41 / 2)],
          polarData =
            [\<lparr>time = ascii ''t'', mag = Finite False (41 / 2), alt = Finite False 46, azi = Finite False 10\<rparr>]\<rparr>)"
proof -
  define T where "T = ascii ''a b t c d 20.5 e 46 10''"
  define D where "D = \<lparr>medianSqm = Some (Finite False (41 / 2)),
      allSqmValues = [Finite False (41 / 2)],
      polarData =
        [\<lparr>time = ascii ''t'', mag = Finite False (41 / 2), alt = Finite False 46, azi = Finite False 10\<rparr>]\<rparr>"
  define fetch :: "jsstring \<Rightarrow> fetchOutcome" where "fetch = (\<lambda>a. Response True T)"
  have run: "parses T D"
    unfolding T_def D_def parses_iff by (rule example_data_line [symmetric])
  have miss: "(Map.empty :: jsstring \<rightharpoonup> processedData) (ascii ''u'') = None
      \<and> ascii ''u'' \<notin> set objectPrototypeKeys \<and> fetch (ascii ''u'') = Response True T \<and> parses T D"
    using example_address run by (simp add: fetch_def)
  have first: "fetchAndParseSqm fetch Map.empty (ascii ''u'') = (Data D, Map.empty(ascii ''u'' \<mapsto> D))"
    and hit: "cacheRead (Map.empty(ascii ''u'' \<mapsto> D)) (ascii ''u'') = Some (Data D)"
    and second: "fetchAndParseSqm fetch (Map.empty(ascii ''u'' \<mapsto> D)) (ascii ''u'')
      = (Data D, Map.empty(ascii ''u'' \<mapsto> D))"
    using parse_deterministic [of T D D fetch Map.empty "ascii ''u''"] miss by blast+
  show ?thesis
    using run first hit second unfolding T_def D_def fetch_def by simp
qed

section \<open>The outputs are parts of \<^verbatim>\<open>allSqmValues\<close>\<close>

text \<open>
  C10. The magnitudes of \<^verbatim>\<open>polarData\<close> and the values for the median are subsequences
  of \<^verbatim>\<open>allSqmValues\<close>, in the same order; so \<^verbatim>\<open>polarData\<close> is never longer than
  \<^verbatim>\<open>allSqmValues\<close>, and \<^verbatim>\<open>medianSqm\<close> is not \<^verbatim>\<open>null\<close> only if \<^verbatim>\<open>allSqmValues\<close> is
  not empty.
\<close>

theorem outputs_subsequences:
  "subseq (map mag (polarData (parseSqm textData))) (allSqmValues (parseSqm textData))
   \<and> subseq (sqmValuesForMedian (runLines (splitLines textData))) (allSqmValues (parseSqm textData))
   \<and> length (polarData (parseSqm textData)) \<le> length (allSqmValues (parseSqm textData))
   \<and> (medianSqm (parseSqm textData) \<noteq> None \<longrightarrow> allSqmValues (parseSqm textData) \<noteq> [])"
proof -
  let ?S = "parsedSamples (splitLines textData)"
  have polar: "subseq (map mag (filter polarValid ?S)) (map mag ?S)"
    by (rule subseq_map) simp
  have buffer: "subseq (map mag (filter highAltitude ?S)) (map mag ?S)"
    by (rule subseq_map) simp
  have median: "?S \<noteq> []" if "calculateMedian (map mag (filter highAltitude ?S)) \<noteq> None"
  proof
    assume "?S = []"
    then have "calculateMedian (map mag (filter highAltitude ?S)) = None"
      by (simp add: calculateMedian_def)
    with that show False by simp
  qed
  show ?thesis
    using polar buffer median
    by (simp add: parseSqm_def parseLines_eq runLines_eq)
qed

theorem outputs_subsequences_witness:
  "medianSqm (parseSqm (ascii ''a b t c d 20.5 e 46 10'' @ [0x0A] @ ascii ''# b u c d 21.5 e 50 20'')) \<noteq> None
   \<and> allSqmValues (parseSqm (ascii ''a b t c d 20.5 e 46 10'' @ [0x0A] @ ascii ''# b u c d 21.5 e 50 20'')) \<noteq> []
   \<and> subseq
       (map mag (polarData (parseSqm (ascii ''a b t c d 20.5 e 46 10'' @ [0x0A] @ ascii ''# b u c d 21.5 e 50 20''))))
       (allSqmValues (parseSqm (ascii ''a b t c d 20.5 e 46 10'' @ [0x0A] @ ascii ''# b u c d 21.5 e 50 20'')))"
proof -
  have "medianSqm (parseSqm (ascii ''a b t c d 20.5 e 46 10'' @ [0x0A] @ ascii ''# b u c d 21.5 e 50 20'')) \<noteq> None"
    unfolding example_comment_after_data by simp
  then show ?thesis
    using outputs_subsequences
      [of "ascii ''a b t c d 20.5 e 46 10'' @ [0x0A] @ ascii ''# b u c d 21.5 e 50 20''"]
    by blast
qed

section \<open>The median\<close>

lemma example_median_odd:
  "calculateMedian [num 1, num 2, num 3] = Some (num 2)"
  by code_simp

lemma example_median_even:
  "calculateMedian [num 1, num 2, num 3, num 4] = Some (num (5 / 2))"
  by code_simp

lemma example_median_inputs:
  "list_all isDouble [num 1, num 2, num 3, num 4] \<and> ascending [num 1, num 2, num 3, num 4]
   \<and> \<not> middleOverflows [num 1, num 2, num 3, num 4]
   \<and> middleValue [num 1, num 2, num 3, num 4] = num (5 / 2)
   \<and> list_all isDouble [num 3, num 1, num 2] \<and> NaN \<notin> set [num 3, num 1, num 2]
   \<and> \<not> middleOverflows (jsSort [num 3, num 1, num 2])
   \<and> jsSort [num 3, num 1, num 2] = [num 1, num 2, num 3]"
  by code_simp

text \<open>
  C4, as the code has it. \<^verbatim>\<open>calculateMedian\<close> of the empty sequence is \<^verbatim>\<open>null\<close>, and
  of one element that element. For a sequence of Numbers that is not empty and is sorted
  ascending it returns the middle of the sequence, the middle element for an odd count and
  the arithmetic mean of the two middle elements for an even count, unless the sum of the
  two middle elements overflows. For any sequence of Numbers without NaN the sorted copy
  is ascending and a permutation of the input, and the result is the middle of the sorted
  copy, unless that sum overflows: then the result is an infinity.
  \<^verbatim>\<open>calculateMedian([1, 2, 3])\<close> is 2 and \<^verbatim>\<open>calculateMedian([1, 2, 3, 4])\<close> is 2.5.
\<close>

theorem median_contract:
  "calculateMedian [] = None
   \<and> calculateMedian [x] = Some x
   \<and> (xs \<noteq> [] \<and> list_all isDouble xs \<and> ascending xs \<and> \<not> middleOverflows xs
        \<longrightarrow> calculateMedian xs = Some (middleValue xs))
   \<and> (xs \<noteq> [] \<and> list_all isDouble xs \<and> NaN \<notin> set xs
        \<longrightarrow> ascending (jsSort xs) \<and> mset (jsSort xs) = mset xs
          \<and> (\<not> middleOverflows (jsSort xs) \<longrightarrow> calculateMedian xs = Some (middleValue (jsSort xs)))
          \<and> (middleOverflows (jsSort xs) \<longrightarrow> (\<exists>s. calculateMedian xs = Some (Infinity s))))
   \<and> calculateMedian [num 1, num 2, num 3] = Some (num 2)
   \<and> calculateMedian [num 1, num 2, num 3, num 4] = Some (num (5 / 2))"
proof -
  have empty: "calculateMedian [] = None"
    by (simp add: calculateMedian_def)
  have single: "calculateMedian [x] = Some x"
    by (simp add: calculateMedian_def jsSort_def)
  have sorted: "calculateMedian xs = Some (middleValue xs)"
    if "xs \<noteq> []" "list_all isDouble xs" "ascending xs" "\<not> middleOverflows xs"
  proof -
    have d: "\<forall>x\<in>set xs. isDouble x"
      using that(2) by (simp add: list_all_iff)
    then have "jsSort xs = xs"
      using that(3) by (rule jsSort_ascending)
    then show ?thesis
      using calculateMedian_middle [OF that(1) d] that(4) by simp
  qed
  have general: "ascending (jsSort xs) \<and> mset (jsSort xs) = mset xs
      \<and> (\<not> middleOverflows (jsSort xs) \<longrightarrow> calculateMedian xs = Some (middleValue (jsSort xs)))
      \<and> (middleOverflows (jsSort xs) \<longrightarrow> (\<exists>s. calculateMedian xs = Some (Infinity s)))"
    if "xs \<noteq> []" "list_all isDouble xs" "NaN \<notin> set xs"
  proof -
    have d: "\<forall>x\<in>set xs. isDouble x"
      using that(2) by (simp add: list_all_iff)
    have "\<forall>y\<in>set xs. isDouble y \<and> y \<noteq> NaN"
      using that by (auto simp add: list_all_iff)
    then have "ascending (jsSort xs)"
      by (rule ascending_jsSort)
    then show ?thesis
      using calculateMedian_middle [OF that(1) d] calculateMedian_overflow [OF that(1)] by simp
  qed
  show ?thesis
    using empty single sorted general example_median_odd example_median_even by blast
qed

theorem median_contract_witness:
  "calculateMedian [num 1, num 2, num 3, num 4] = Some (middleValue [num 1, num 2, num 3, num 4])
   \<and> middleValue [num 1, num 2, num 3, num 4] = num (5 / 2)
   \<and> ascending (jsSort [num 3, num 1, num 2])
   \<and> mset (jsSort [num 3, num 1, num 2]) = mset [num 3, num 1, num 2]
   \<and> calculateMedian [num 3, num 1, num 2] = Some (middleValue (jsSort [num 3, num 1, num 2]))
   \<and> jsSort [num 3, num 1, num 2] = [num 1, num 2, num 3]"
proof -
  have "[num 1, num 2, num 3, num 4] \<noteq> []" "[num 3, num 1, num 2] \<noteq> []"
    by simp_all
  then show ?thesis
    using median_contract [of "num 0" "[num 1, num 2, num 3, num 4]"]
      median_contract [of "num 0" "[num 3, num 1, num 2]"] example_median_inputs
    by blast
qed

text \<open>
  C4 as it is stated fails for an even count when the sum of the two middle elements
  overflows: the sequence of \<open>2 ^ 1023\<close> twice is sorted ascending, the arithmetic mean of
  its two elements is \<open>2 ^ 1023\<close>, and \<^verbatim>\<open>calculateMedian\<close> returns \<^verbatim>\<open>Infinity\<close>.
\<close>

theorem median_overflow_counterexample:
  "isDouble (Finite False (pow2 1023))
   \<and> ascending [Finite False (pow2 1023), Finite False (pow2 1023)]
   \<and> middleValue [Finite False (pow2 1023), Finite False (pow2 1023)] = Finite False (pow2 1023)
   \<and> calculateMedian [Finite False (pow2 1023), Finite False (pow2 1023)] = Some (Infinity False)"
  using big_pair [OF conjunct1 [OF pow2_1023_double] conjunct2 [OF pow2_1023_double]]
  by simp

section \<open>The median leaves its argument as it is\<close>

lemma calculateMedianStore_Some:
  "calculateMedianStore \<sigma> (Some r) =
     (calculateMedian (arrays \<sigma> r),
      if arrays \<sigma> r = [] then \<sigma>
      else \<sigma>\<lparr>arrays := (arrays \<sigma>)(nextRef \<sigma> := jsSort (arrays \<sigma> r)), nextRef := nextRef \<sigma> + 1\<rparr>)"
  by (simp add: calculateMedianStore_def calculateMedian_def spread_def sortInPlace_def Let_def)

text \<open>
  C5. \<^verbatim>\<open>calculateMedian\<close> leaves the array of the caller as it is: after the call the
  store holds at the address of the argument, and at every address that was allocated
  before the call, the array it held before; the sorted array is a new one. The result is
  that of the function on the elements. For \<^verbatim>\<open>null\<close> nothing is allocated.
\<close>

theorem median_keeps_input:
  "calculateMedianStore \<sigma> None = (None, \<sigma>)
   \<and> (r < nextRef \<sigma> \<longrightarrow>
        arrays (snd (calculateMedianStore \<sigma> (Some r))) r = arrays \<sigma> r
        \<and> (\<forall>q. q < nextRef \<sigma> \<longrightarrow> arrays (snd (calculateMedianStore \<sigma> (Some r))) q = arrays \<sigma> q)
        \<and> fst (calculateMedianStore \<sigma> (Some r)) = calculateMedian (arrays \<sigma> r))"
  by (simp add: calculateMedianStore_Some) (simp add: calculateMedianStore_def)

lemma example_median_unsorted:
  "calculateMedian [num 3, num 1, num 2] = Some (num 2)"
  by code_simp

theorem median_keeps_input_witness:
  "arrays (snd (calculateMedianStore
       \<lparr>arrays = (\<lambda>r. [])(0 := [num 3, num 1, num 2]), nextRef = 1\<rparr> (Some 0))) 0
     = [num 3, num 1, num 2]
   \<and> fst (calculateMedianStore
       \<lparr>arrays = (\<lambda>r. [])(0 := [num 3, num 1, num 2]), nextRef = 1\<rparr> (Some 0))
     = Some (num 2)"
  using median_keeps_input
    [of "\<lparr>arrays = (\<lambda>r. [])(0 := [num 3, num 1, num 2]), nextRef = 1\<rparr>" 0]
  by (simp add: example_median_unsorted)

section \<open>The bins of the histogram\<close>

lemma minRange_value: "minRange = Finite False 16"
  by code_simp

lemma maxRange_value: "maxRange = Finite False 22"
  by code_simp

lemma binWidth_value: "binWidth = Finite False (3602879701896397 / 18014398509481984)"
  by code_simp

lemma num_1: "num 1 = Finite False 1"
  by code_simp

lemma num_31: "num 31 = Finite False 31"
  by code_simp

lemma coreBinCount_value: "coreBinCount = 30"
  by code_simp

lemma labels_length: "length labels = 32"
  by (simp add: labels_def coreBinCount_value)

lemma labels_ends: "hd labels = Text ''<16'' \<and> last labels = Text ''>22''"
  by (simp add: labels_def)

lemma countValue_code [code]:
  "countValue bins val =
     (if isNaN val then bins
      else if jsLess val minRange then increment bins (num 0)
      else if jsGreaterEq val maxRange then increment bins (num 31)
      else
        (let binIndex = jsAdd (jsFloor (jsDiv (jsSub val minRange) binWidth)) (num 1)
         in if jsGreater binIndex (num 0) \<and> jsLess binIndex (num 31)
            then increment bins binIndex
            else if jsStrictEq val minRange then increment bins (num 1)
            else bins))"
  by (simp add: countValue_def labels_length)

lemma histogramBins_code [code]:
  "histogramBins sqmValues = foldl countValue (replicate 32 0) sqmValues"
  by (simp add: histogramBins_def labels_length)

lemma example_histogram:
  "histogramBins [num (159 / 10), num 16, num (2199 / 100), num 22] =
     (replicate 32 0)[0 := 1, 1 := 1, 30 := 1, 31 := 1]"
  by code_simp

lemma bound_values:
  "roundMagnitude (6 - pow2 (- 48)) = Some (6 - pow2 (- 48))
   \<and> roundMagnitude (30 - 5 * pow2 (- 48)) = Some (30 - 5 * pow2 (- 48))
   \<and> (6 - pow2 (- 48)) / (3602879701896397 / 18014398509481984) \<le> 30 - 5 * pow2 (- 48)
   \<and> pow2 4 = 16 \<and> pow2 5 = 32 \<and> pow2 (- 48) = 1 / 281474976710656"
  by code_simp

lemma small_int_exact:
  assumes "0 < f" "f < 2 ^ 53"
  shows "roundMagnitude (of_int f) = Some (of_int f)"
proof (rule roundMagnitude_exact [where N = f and j = 0])
  show "(0::rat) < of_int f" using assms by simp
  show "(of_int f :: rat) = of_int f * pow2 0" by (simp add: pow2_def)
  show "- 1074 \<le> (0::int)" by simp
  have "(of_int f :: rat) < of_int (2 ^ 53)" using assms(2) by (simp only: of_int_less_iff)
  then show "(of_int f :: rat) < pow2 (0 + 53)" by (simp add: pow2_def)
  also have "pow2 (0 + 53) \<le> pow2 1024" by (rule pow2_mono) simp
  finally show "(of_int f :: rat) < pow2 1024" .
qed

lemma toNumber_small_int:
  assumes "0 < f" "f < 2 ^ 53"
  shows "toNumber z (of_int f) = Finite False (of_int f)"
  using assms small_int_exact [OF assms] by (simp add: toNumber_def)

lemma toNumber_zero [simp]: "toNumber z 0 = Finite z 0"
  by (simp add: toNumber_def)

lemma toNumber_rounded_le:
  assumes "0 \<le> x" "x \<le> c" "roundMagnitude c = Some c"
  shows "\<exists>r. toNumber False x = Finite False r \<and> 0 \<le> r \<and> r \<le> c"
proof (cases "x = 0")
  case True
  then show ?thesis using assms by simp
next
  case False
  then have pos: "0 < x" using assms(1) by simp
  obtain r where "roundMagnitude x = Some r" "0 \<le> r" "r \<le> c"
    using roundMagnitude_le [OF pos assms(2,3)] by blast
  then show ?thesis using pos by (simp add: toNumber_def)
qed

lemma interior_quotient:
  assumes d: "isDouble (Finite s m)" and lo: "16 \<le> valueOf s m" and hi: "valueOf s m < 22"
  shows "\<exists>q. jsDiv (jsSub (Finite s m) minRange) binWidth = Finite False q \<and> 0 \<le> q \<and> q < 30"
proof -
  have m0: "0 \<le> m" using d by (auto simp add: isDouble_def)
  have s: "\<not> s"
  proof
    assume s
    then have "valueOf s m \<le> 0" using m0 by (simp add: valueOf_def)
    with lo show False by simp
  qed
  then have m: "16 \<le> m" "m < 22" using lo hi by (simp_all add: valueOf_def)
  then have rm: "roundMagnitude m = Some m" using d by (auto simp add: isDouble_def)
  have "pow2 4 \<le> m" "m < pow2 (4 + 1)" using m bound_values by simp_all
  then obtain n where "m = of_int n * pow2 (4 - 52)"
    using double_grid [OF rm, of 4] by auto
  then have n: "m = of_int n / 281474976710656" using bound_values by simp
  then have "(of_int n :: rat) < of_int (22 * 281474976710656)" using m(2) by simp
  then have "n < 22 * 281474976710656" by (simp only: of_int_less_iff)
  then have "n \<le> 22 * 281474976710656 - 1" by simp
  then have "(of_int n :: rat) \<le> of_int (22 * 281474976710656 - 1)" by (simp only: of_int_le_iff)
  then have top: "m \<le> 22 - pow2 (- 48)" using n bound_values by (simp add: field_simps)
  have sub: "jsSub (Finite s m) minRange = toNumber False (m - 16)"
    using s by (simp add: jsSub_def minRange_value valueOf_def)
  have c1: "roundMagnitude (6 - pow2 (- 48)) = Some (6 - pow2 (- 48))"
    and c2: "roundMagnitude (30 - 5 * pow2 (- 48)) = Some (30 - 5 * pow2 (- 48))"
    using bound_values by blast+
  have "0 \<le> m - 16" "m - 16 \<le> 6 - pow2 (- 48)"
    using m(1) top by simp_all
  then have "\<exists>r. toNumber False (m - 16) = Finite False r \<and> 0 \<le> r \<and> r \<le> 6 - pow2 (- 48)"
    using c1 by (rule toNumber_rounded_le)
  then obtain r where r: "jsSub (Finite s m) minRange = Finite False r" "0 \<le> r" "r \<le> 6 - pow2 (- 48)"
    using sub by auto
  define w :: rat where "w = 3602879701896397 / 18014398509481984"
  have w: "0 < w" by (simp add: w_def)
  have quot: "jsDiv (jsSub (Finite s m) minRange) binWidth = toNumber False (r / w)"
    using r(1) w by (simp add: binWidth_value valueOf_def w_def)
  have "r / w \<le> (6 - pow2 (- 48)) / w"
    using r(3) w by (simp add: divide_right_mono less_imp_le)
  also have "\<dots> \<le> 30 - 5 * pow2 (- 48)"
    using bound_values unfolding w_def by blast
  finally have rw: "r / w \<le> 30 - 5 * pow2 (- 48)" .
  have "0 \<le> r / w" using r(2) w by simp
  then have "\<exists>q. toNumber False (r / w) = Finite False q \<and> 0 \<le> q \<and> q \<le> 30 - 5 * pow2 (- 48)"
    using rw c2 by (rule toNumber_rounded_le)
  then obtain q where q: "toNumber False (r / w) = Finite False q" "0 \<le> q" "q \<le> 30 - 5 * pow2 (- 48)"
    by auto
  have "(0::rat) < pow2 (- 48)" by (rule pow2_pos)
  then have "q < 30" using q(3) by linarith
  then show ?thesis using quot q by auto
qed

lemma increment_index:
  assumes "0 \<le> k" "nat k < length bins"
  shows "increment bins (Finite False (of_int k)) = bins[nat k := bins ! nat k + 1]"
  using assms by (simp add: increment_def)

lemma below_bucket:
  assumes "jsLess v minRange" "0 < length bins"
  shows "countValue bins v = bins[0 := bins ! 0 + 1]"
proof -
  have "v \<noteq> NaN" using assms(1) by auto
  then show ?thesis
    using assms increment_index [of 0 bins] by (simp add: countValue_code isNaN_def num_0)
qed

lemma above_bucket:
  assumes "jsGreaterEq v maxRange" "length bins = 32"
  shows "countValue bins v = bins[31 := bins ! 31 + 1]"
proof -
  have nan: "v \<noteq> NaN" using assms(1) by (auto simp add: jsGreaterEq_def isNaN_def)
  have "\<not> jsLess v minRange"
    using assms(1) by (cases v) (auto simp add: jsGreaterEq_def isNaN_def minRange_value maxRange_value valueOf_def)
  then show ?thesis
    using assms nan increment_index [of 31 bins]
    by (simp add: countValue_code isNaN_def num_31)
qed

lemma interior_bucket:
  assumes d: "isDouble v" and lo: "jsGreaterEq v minRange" and hi: "jsLess v maxRange"
    and len: "length bins = 32"
  shows "\<exists>q. jsDiv (jsSub v minRange) binWidth = Finite False q \<and> 0 \<le> q \<and> q < 30
    \<and> countValue bins v = bins[nat \<lfloor>q\<rfloor> + 1 := bins ! (nat \<lfloor>q\<rfloor> + 1) + 1]"
proof -
  obtain s m where v: "v = Finite s m"
    using lo hi by (cases v) (auto simp add: jsGreaterEq_def isNaN_def minRange_value maxRange_value)
  have range: "16 \<le> valueOf s m" "valueOf s m < 22"
    using lo hi by (simp_all add: v jsGreaterEq_def isNaN_def minRange_value maxRange_value valueOf_def)
  obtain q where q: "jsDiv (jsSub v minRange) binWidth = Finite False q" "0 \<le> q" "q < 30"
    using interior_quotient [OF d [unfolded v] range] v by auto
  define f where "f = \<lfloor>q\<rfloor>"
  have f: "0 \<le> f" "f < 30"
    using q by (simp_all add: f_def floor_less_iff)
  have floor: "jsFloor (Finite False q) = Finite False (of_int f)"
  proof (cases "f = 0")
    case True
    then show ?thesis by (simp add: valueOf_def f_def)
  next
    case False
    then have "toNumber False (of_int f) = Finite False (of_int f)"
      using f by (intro toNumber_small_int) simp_all
    then show ?thesis by (simp add: valueOf_def f_def)
  qed
  have "toNumber False (of_int (f + 1)) = Finite False (of_int (f + 1))"
    using f by (intro toNumber_small_int) simp_all
  then have index: "jsAdd (jsFloor (jsDiv (jsSub v minRange) binWidth)) (num 1) = Finite False (of_int (f + 1))"
    unfolding q(1) floor num_1 by (simp add: valueOf_def)
  have inc: "increment bins (Finite False (of_int (f + 1))) = bins[nat (f + 1) := bins ! nat (f + 1) + 1]"
    using f len by (intro increment_index) simp_all
  have idx: "nat (f + 1) = nat \<lfloor>q\<rfloor> + 1"
    using f by (simp add: f_def nat_add_distrib)
  have nb: "\<not> jsLess v minRange" "\<not> jsGreaterEq v maxRange" "\<not> isNaN v"
    using range by (simp_all add: v minRange_value maxRange_value jsGreaterEq_def isNaN_def valueOf_def)
  have guard: "jsGreater (Finite False (of_int (f + 1))) (num 0)" "jsLess (Finite False (of_int (f + 1))) (num 31)"
    using f by (simp_all add: jsGreater_def num_0 num_31 valueOf_def)
  have "countValue bins v = bins[nat (f + 1) := bins ! nat (f + 1) + 1]"
    unfolding countValue_code using nb guard inc by (simp add: index Let_def)
  then show ?thesis using q idx by auto
qed

lemma minRange_bucket:
  assumes "length bins = 32"
  shows "countValue bins minRange = bins[1 := bins ! 1 + 1]"
proof -
  have "isDouble minRange" "jsGreaterEq minRange minRange" "jsLess minRange maxRange"
    by (simp_all add: minRange_value maxRange_value isDouble_def jsGreaterEq_def isNaN_def valueOf_def
        small_int_exact [of 16, simplified])
  then obtain q where q: "jsDiv (jsSub minRange minRange) binWidth = Finite False q"
    and c: "countValue bins minRange = bins[nat \<lfloor>q\<rfloor> + 1 := bins ! (nat \<lfloor>q\<rfloor> + 1) + 1]"
    using interior_bucket [OF _ _ _ assms, of minRange] by blast
  have "jsDiv (jsSub minRange minRange) binWidth = Finite False 0"
    by (simp add: minRange_value binWidth_value jsSub_def valueOf_def)
  with q have "q = 0" by simp
  with c show ?thesis by simp
qed

text \<open>The bucket of a value, and what \<^verbatim>\<open>forEach\<close> does with it.\<close>

lemma bucketOf_code [code]:
  "bucketOf v =
     (if isNaN v then None
      else if jsLess v minRange then Some 0
      else if jsGreaterEq v maxRange then Some 31
      else (case jsDiv (jsSub v minRange) binWidth of
              Finite s q \<Rightarrow> Some (nat \<lfloor>valueOf s q\<rfloor> + 1)
            | _ \<Rightarrow> None))"
  by (simp add: bucketOf_def labels_length)

lemma bucketOf_cases:
  assumes d: "isDouble v"
  shows "(isNaN v \<and> bucketOf v = None)
    \<or> (jsLess v minRange \<and> bucketOf v = Some 0)
    \<or> (jsGreaterEq v maxRange \<and> bucketOf v = Some 31)
    \<or> (jsGreaterEq v minRange \<and> jsLess v maxRange
        \<and> (\<exists>q. jsDiv (jsSub v minRange) binWidth = Finite False q \<and> 0 \<le> q \<and> q < 30
              \<and> bucketOf v = Some (nat \<lfloor>q\<rfloor> + 1)))"
proof (cases "isNaN v \<or> jsLess v minRange \<or> jsGreaterEq v maxRange")
  case True
  then show ?thesis
    by (auto simp add: bucketOf_code)
next
  case False
  then have lo: "jsGreaterEq v minRange" and hi: "jsLess v maxRange"
    by (cases v; simp add: jsGreaterEq_def isNaN_def minRange_value maxRange_value)+
  obtain q where q: "jsDiv (jsSub v minRange) binWidth = Finite False q" "0 \<le> q" "q < 30"
    using interior_bucket [OF d lo hi, of "replicate 32 0"] by auto
  have "bucketOf v = Some (nat \<lfloor>q\<rfloor> + 1)"
    using False q(1) by (simp add: bucketOf_code valueOf_def)
  then show ?thesis
    using lo hi q by blast
qed

lemma bucketOf_bound:
  assumes "isDouble v" "bucketOf v = Some k"
  shows "k < 32"
proof -
  have "nat \<lfloor>q\<rfloor> + 1 < 32" if "0 \<le> q" "q < 30" for q :: rat
  proof -
    have "\<lfloor>q\<rfloor> < 30" using that(2) by (simp add: floor_less_iff)
    then show ?thesis by arith
  qed
  then show ?thesis
    using bucketOf_cases [OF assms(1)] assms(2) by auto
qed

lemma countValue_bucketOf:
  assumes d: "isDouble v" and len: "length bins = 32"
  shows "countValue bins v = (case bucketOf v of None \<Rightarrow> bins | Some k \<Rightarrow> bins[k := bins ! k + 1])"
proof -
  have pos: "0 < length bins" using len by simp
  from bucketOf_cases [OF d] show ?thesis
  proof (elim disjE conjE exE)
    assume "isNaN v" "bucketOf v = None"
    then show ?thesis by (simp add: countValue_code)
  next
    assume below: "jsLess v minRange" "bucketOf v = Some 0"
    then show ?thesis using below_bucket [OF below(1) pos] by simp
  next
    assume above: "jsGreaterEq v maxRange" "bucketOf v = Some 31"
    then show ?thesis using above_bucket [OF above(1) len] by simp
  next
    fix q
    assume inner: "jsGreaterEq v minRange" "jsLess v maxRange"
      "jsDiv (jsSub v minRange) binWidth = Finite False q" "bucketOf v = Some (nat \<lfloor>q\<rfloor> + 1)"
    obtain r where r: "jsDiv (jsSub v minRange) binWidth = Finite False r"
      and c: "countValue bins v = bins[nat \<lfloor>r\<rfloor> + 1 := bins ! (nat \<lfloor>r\<rfloor> + 1) + 1]"
      using interior_bucket [OF d inner(1,2) len] by blast
    have "r = q" using r inner(3) by simp
    then show ?thesis using c inner(4) by simp
  qed
qed

lemma length_countValue [simp]:
  "length (countValue bins v) = length bins"
  by (simp add: countValue_def increment_def Let_def split: jsnum.splits)

lemma length_foldl_countValue [simp]:
  "length (foldl countValue bins vs) = length bins"
  by (induction vs arbitrary: bins) simp_all

lemma foldl_countValue_nth:
  assumes "list_all isDouble vs" "length bins = 32" "k < 32"
  shows "foldl countValue bins vs ! k = bins ! k + length (filter (\<lambda>v. bucketOf v = Some k) vs)"
  using assms
proof (induction vs arbitrary: bins)
  case Nil
  then show ?case by simp
next
  case (Cons v vs)
  have d: "isDouble v" and ds: "list_all isDouble vs"
    using Cons.prems(1) by simp_all
  have len: "length (countValue bins v) = 32"
    using Cons.prems(2) by simp
  have step: "countValue bins v ! k = bins ! k + (if bucketOf v = Some k then 1 else 0)"
  proof (cases "bucketOf v")
    case None
    then show ?thesis
      using countValue_bucketOf [OF d Cons.prems(2)] by simp
  next
    case (Some j)
    then have "j < length bins"
      using bucketOf_bound [OF d] Cons.prems(2) by simp
    then show ?thesis
      using countValue_bucketOf [OF d Cons.prems(2)] Some Cons.prems(2,3)
      by (simp add: nth_list_update)
  qed
  show ?case
    using Cons.IH [OF ds len Cons.prems(3)] step by simp
qed

lemma histogramBins_nth:
  assumes "list_all isDouble vs" "k < 32"
  shows "histogramBins vs ! k = length (filter (\<lambda>v. bucketOf v = Some k) vs)"
  using foldl_countValue_nth [OF assms(1) _ assms(2), of "replicate 32 0"] assms(2)
  by (simp add: histogramBins_code)

lemma histogramBins_snoc:
  "histogramBins (vs @ [v]) = countValue (histogramBins vs) v"
  by (simp add: histogramBins_def)

lemma createHistogram_eq:
  "createHistogram canvasFound sqmValues =
     (case sqmValues of
        None \<Rightarrow> None
      | Some vs \<Rightarrow> if vs = [] \<or> \<not> canvasFound then None else Some (histogramBins vs))"
  by (simp add: createHistogram_def split: option.splits)

lemma example_buckets:
  "list_all isDouble [num (159 / 10), num 16, num (2199 / 100), num 22]
   \<and> map bucketOf [num (159 / 10), num 16, num (2199 / 100), num 22]
       = [Some 0, Some 1, Some 30, Some 31]"
  by code_simp

text \<open>
  C6. With bin width 0.2 and range 16.0 to 22.0 there are 32 bins, the first labelled
  \<^verbatim>\<open><16\<close> and the last \<^verbatim>\<open>>22\<close>. A value below 16 is counted in bin 0 and a value
  of 22 or more in the last bin. For a Number \<open>v\<close> with \<open>16 \<le> v < 22\<close> the quotient
  \<^verbatim>\<open>(v - minRange) / binWidth\<close>, as binary64 computes it, is a \<open>q\<close> with \<open>0 \<le> q < 30\<close>,
  and \<open>v\<close> is counted in the inner bin \<open>floor q + 1\<close>; the value 16 is counted in bin 1.
  The bins of the chart start at zero and each value of \<^verbatim>\<open>sqmValues\<close> is counted in turn,
  so that each of the 32 bins holds, for Numbers, the count of the values of which it is
  the bucket; NaN is counted nowhere. \<^verbatim>\<open>createHistogram\<close> gives these bins when there
  are values and a canvas, and \<^verbatim>\<open>null\<close> otherwise. The values 15.9, 16.0, 21.99 and 22.0
  are counted in the bins 0, 1, 30 and 31.
\<close>

theorem histogram_buckets:
  "length labels = 32 \<and> hd labels = Text ''<16'' \<and> last labels = Text ''>22''
   \<and> (length bins = length labels \<longrightarrow>
        (jsLess v minRange \<longrightarrow> countValue bins v = bins[0 := bins ! 0 + 1])
      \<and> (jsGreaterEq v maxRange \<longrightarrow>
           countValue bins v = bins[length labels - 1 := bins ! (length labels - 1) + 1])
      \<and> (isDouble v \<and> jsGreaterEq v minRange \<and> jsLess v maxRange \<longrightarrow>
           (\<exists>q. jsDiv (jsSub v minRange) binWidth = Finite False q \<and> 0 \<le> q \<and> q < 30
              \<and> countValue bins v = bins[nat \<lfloor>q\<rfloor> + 1 := bins ! (nat \<lfloor>q\<rfloor> + 1) + 1]))
      \<and> countValue bins minRange = bins[1 := bins ! 1 + 1]
      \<and> countValue bins NaN = bins)
   \<and> histogramBins [] = replicate (length labels) 0
   \<and> histogramBins (vs @ [v]) = countValue (histogramBins vs) v
   \<and> length (histogramBins vs) = length labels
   \<and> (isDouble v \<longrightarrow>
        (jsLess v minRange \<longrightarrow> bucketOf v = Some 0)
      \<and> (jsGreaterEq v maxRange \<longrightarrow> bucketOf v = Some (length labels - 1))
      \<and> (jsGreaterEq v minRange \<and> jsLess v maxRange \<longrightarrow>
           (\<exists>q. jsDiv (jsSub v minRange) binWidth = Finite False q \<and> 0 \<le> q \<and> q < 30
              \<and> bucketOf v = Some (nat \<lfloor>q\<rfloor> + 1)))
      \<and> (isNaN v \<longrightarrow> bucketOf v = None))
   \<and> (list_all isDouble vs \<and> k < length labels \<longrightarrow>
        histogramBins vs ! k = length (filter (\<lambda>v. bucketOf v = Some k) vs))
   \<and> createHistogram canvasFound None = None
   \<and> createHistogram canvasFound (Some []) = None
   \<and> createHistogram False (Some vs) = None
   \<and> (vs \<noteq> [] \<longrightarrow> createHistogram True (Some vs) = Some (histogramBins vs))
   \<and> histogramBins [num (159 / 10), num 16, num (2199 / 100), num 22] =
       (replicate 32 0)[0 := 1, 1 := 1, 30 := 1, 31 := 1]"
proof -
  have buckets: "(jsLess v minRange \<longrightarrow> countValue bins v = bins[0 := bins ! 0 + 1])
      \<and> (jsGreaterEq v maxRange \<longrightarrow>
           countValue bins v = bins[length labels - 1 := bins ! (length labels - 1) + 1])
      \<and> (isDouble v \<and> jsGreaterEq v minRange \<and> jsLess v maxRange \<longrightarrow>
           (\<exists>q. jsDiv (jsSub v minRange) binWidth = Finite False q \<and> 0 \<le> q \<and> q < 30
              \<and> countValue bins v = bins[nat \<lfloor>q\<rfloor> + 1 := bins ! (nat \<lfloor>q\<rfloor> + 1) + 1]))
      \<and> countValue bins minRange = bins[1 := bins ! 1 + 1]
      \<and> countValue bins NaN = bins"
    if "length bins = length labels"
  proof -
    have len: "length bins = 32" using that by (simp add: labels_length)
    then have pos: "0 < length bins" by simp
    have "countValue bins NaN = bins"
      by (simp add: countValue_def isNaN_def)
    then show ?thesis
      using below_bucket [OF _ pos, of v] above_bucket [OF _ len, of v]
        interior_bucket [OF _ _ _ len, of v] minRange_bucket [OF len]
      by (simp add: labels_length)
  qed
  have start: "histogramBins [] = replicate (length labels) 0"
    by (simp add: histogramBins_def)
  have size: "length (histogramBins vs) = length labels"
    by (simp add: histogramBins_def)
  have bucket: "(jsLess v minRange \<longrightarrow> bucketOf v = Some 0)
      \<and> (jsGreaterEq v maxRange \<longrightarrow> bucketOf v = Some (length labels - 1))
      \<and> (jsGreaterEq v minRange \<and> jsLess v maxRange \<longrightarrow>
           (\<exists>q. jsDiv (jsSub v minRange) binWidth = Finite False q \<and> 0 \<le> q \<and> q < 30
              \<and> bucketOf v = Some (nat \<lfloor>q\<rfloor> + 1)))
      \<and> (isNaN v \<longrightarrow> bucketOf v = None)"
    if d: "isDouble v"
  proof -
    have below: "bucketOf v = Some 0" if "jsLess v minRange"
      using that by (cases v) (simp_all add: bucketOf_code isNaN_def)
    have above: "bucketOf v = Some (length labels - 1)" if "jsGreaterEq v maxRange"
      using that
      by (cases v) (auto simp add: bucketOf_code labels_length jsGreaterEq_def isNaN_def
          minRange_value maxRange_value valueOf_def)
    have inner: "\<exists>q. jsDiv (jsSub v minRange) binWidth = Finite False q \<and> 0 \<le> q \<and> q < 30
        \<and> bucketOf v = Some (nat \<lfloor>q\<rfloor> + 1)"
      if "jsGreaterEq v minRange" "jsLess v maxRange"
    proof -
      have "\<not> isNaN v" "\<not> jsLess v minRange" "\<not> jsGreaterEq v maxRange"
        using that by (cases v; simp add: jsGreaterEq_def isNaN_def)+
      then show ?thesis
        using bucketOf_cases [OF d] by auto
    qed
    have "bucketOf v = None" if "isNaN v"
      using that by (simp add: bucketOf_code)
    then show ?thesis
      using below above inner by blast
  qed
  have count: "histogramBins vs ! k = length (filter (\<lambda>v. bucketOf v = Some k) vs)"
    if "list_all isDouble vs" "k < length labels"
    using that histogramBins_nth [of vs k] by (simp add: labels_length)
  have chart: "createHistogram canvasFound None = None"
    "createHistogram canvasFound (Some []) = None"
    "createHistogram False (Some vs) = None"
    "vs \<noteq> [] \<longrightarrow> createHistogram True (Some vs) = Some (histogramBins vs)"
    by (simp_all add: createHistogram_eq)
  show ?thesis
    using buckets labels_length labels_ends start histogramBins_snoc [of vs v] size bucket count
      chart example_histogram
    by blast
qed

lemma example_interior:
  "isDouble (num (2199 / 100)) \<and> jsGreaterEq (num (2199 / 100)) minRange
   \<and> jsLess (num (2199 / 100)) maxRange
   \<and> jsDiv (jsSub (num (2199 / 100)) minRange) binWidth
       = Finite False (8430175552484145 / 281474976710656)"
  by code_simp

theorem histogram_buckets_witness:
  "countValue (replicate 32 0) (num (2199 / 100)) = (replicate 32 0)[30 := 1]
   \<and> bucketOf (num (2199 / 100)) = Some 30
   \<and> histogramBins [num (159 / 10), num 16, num (2199 / 100), num 22] ! 30 = 1
   \<and> createHistogram True (Some [num (159 / 10), num 16, num (2199 / 100), num 22]) =
       Some ((replicate 32 0)[0 := 1, 1 := 1, 30 := 1, 31 := 1])"
proof -
  define vs where "vs = [num (159 / 10), num 16, num (2199 / 100), num 22]"
  note claim = histogram_buckets [of "replicate 32 0" "num (2199 / 100)" vs 30 True]
  have len: "length (replicate 32 (0::nat)) = length labels"
    by (simp add: labels_length)
  obtain q where q: "jsDiv (jsSub (num (2199 / 100)) minRange) binWidth = Finite False q"
    and c: "countValue (replicate 32 0) (num (2199 / 100)) =
      (replicate 32 0)[nat \<lfloor>q\<rfloor> + 1 := replicate 32 0 ! (nat \<lfloor>q\<rfloor> + 1) + 1]"
    using claim len example_interior by blast
  obtain r where r: "jsDiv (jsSub (num (2199 / 100)) minRange) binWidth = Finite False r"
    and b: "bucketOf (num (2199 / 100)) = Some (nat \<lfloor>r\<rfloor> + 1)"
    using claim example_interior by blast
  have "Finite False q = Finite False (8430175552484145 / 281474976710656)"
    "Finite False r = Finite False (8430175552484145 / 281474976710656)"
    using q r example_interior by metis+
  then have "q = 8430175552484145 / 281474976710656" "r = 8430175552484145 / 281474976710656"
    by (simp_all only: jsnum.inject)
  moreover have "\<lfloor>8430175552484145 / 281474976710656 :: rat\<rfloor> = 29"
    by (simp add: floor_eq_iff)
  ultimately have index: "nat \<lfloor>q\<rfloor> + 1 = 30" "nat \<lfloor>r\<rfloor> + 1 = 30"
    by (simp_all only:)
  have one: "countValue (replicate 32 0) (num (2199 / 100)) = (replicate 32 0)[30 := 1]"
    using c index(1) by simp
  have bucket: "bucketOf (num (2199 / 100)) = Some 30"
    using b index(2) by simp
  have numbers: "list_all isDouble vs"
    and buckets: "map bucketOf vs = [Some 0, Some 1, Some 30, Some 31]"
    using example_buckets unfolding vs_def by blast+
  have "(30::nat) < length labels" by (simp add: labels_length)
  then have "histogramBins vs ! 30 = length (filter (\<lambda>v. bucketOf v = Some 30) vs)"
    using claim numbers by blast
  also have "\<dots> = length (filter (\<lambda>b. b = Some 30) (map bucketOf vs))"
    by (simp add: filter_map comp_def)
  also have "\<dots> = 1"
    unfolding buckets by simp
  finally have count: "histogramBins vs ! 30 = 1" .
  have "vs \<noteq> []" by (simp add: vs_def)
  then have "createHistogram True (Some vs) = Some (histogramBins vs)"
    using claim by blast
  moreover have "histogramBins vs = (replicate 32 0)[0 := 1, 1 := 1, 30 := 1, 31 := 1]"
    using claim unfolding vs_def by blast
  ultimately show ?thesis
    using one bucket count unfolding vs_def by simp
qed

end
